(* ===== verification/Prelude.thy ===== *)
theory Prelude
  imports Main "HOL-Library.Sublist"
begin

text \<open>
  Shared vocabulary of the storefront header development: the names of the model's
  basic types, the collection of handler equations that the component proofs unfold,
  and the generic facts on lists, options and maps that several components use.
\<close>

section \<open>Names of the model's basic types\<close>

text \<open>
  JavaScript strings are sequences of UTF-16 code units; the model uses Isabelle's
  \<open>string\<close> (a list of 8-bit characters), which agrees with the source on the
  ASCII texts (storage keys, route paths, search terms) that the component handles.
\<close>

type_synonym url = string
type_synonym storage_key = string

named_theorems handler_simps \<open>equations of the component's handlers and callbacks\<close>

text \<open>Removing the \<open>i\<close>-th element of a list (a completed request leaves the pending list).\<close>

definition del_at :: "nat \<Rightarrow> 'a list \<Rightarrow> 'a list" where
  "del_at i xs = take i xs @ drop (Suc i) xs"

section \<open>Generic facts on lists\<close>

lemma length_del_at [simp]: "i < length xs \<Longrightarrow> length (del_at i xs) = length xs - 1"
  by (simp add: del_at_def)

lemma set_del_at_subset: "set (del_at i xs) \<subseteq> set xs"
  by (auto simp: del_at_def dest: in_set_takeD in_set_dropD)

lemma del_at_Cons_0 [simp]: "del_at 0 (x # xs) = xs"
  by (simp add: del_at_def)

lemma list_all_del_at: "list_all P xs \<Longrightarrow> list_all P (del_at i xs)"
  by (auto simp: list_all_iff dest: set_del_at_subset[THEN subsetD])

end
