(* ===== verification/JsValue.thy ===== *)
theory JsValue
  imports Prelude
begin

text \<open>
  The JavaScript values the header component reads and computes with: the results of
  \<open>JSON.parse\<close> on the storage entries, the value of \<open>.length\<close> on them, and the
  truthiness that its \<open>if\<close> and \<open>&&\<close> tests apply. Also the exceptions those operations
  raise, and \<open>String.prototype.includes\<close>, which decides the seller menu.
\<close>

section \<open>Exceptions\<close>

text \<open>
  \<open>SyntaxError\<close> is what \<open>JSON.parse\<close> throws on malformed text, \<open>TypeError\<close> what
  a property read on \<open>null\<close> or \<open>undefined\<close> throws, \<open>HttpFailure\<close> the error an
  injected service's observable delivers when its request fails. \<open>Unsupported\<close> marks
  the one input of \<open>JSON.parse\<close> the model does not cover (a \<open>\u\<close> escape of a code unit
  above 255, which an 8-bit \<open>char\<close> cannot hold).
\<close>

datatype js_error = SyntaxError | TypeError | HttpFailure | Unsupported

section \<open>Values\<close>

text \<open>
  A JSON number is kept exactly as written: \<open>JNum m e\<close> is the number \<open>m * 10 ^ e\<close>
  (\<open>1.25e3\<close> is \<open>JNum 125 1\<close>). The component only tests numbers for zero and stores
  them, so the one rounding to binary doubles it can observe, a magnitude so small that
  the double is \<open>0\<close>, is written into \<open>truthy\<close>. An object is the list of its
  members in source order; a later member with the same key hides an earlier one, as
  \<open>JSON.parse\<close> keeps the last.
\<close>

datatype jsval =
    JUndef
  | JNull
  | JBool bool
  | JNum int int
  | JStr string
  | JArr "jsval list"
  | JObj "(string \<times> jsval) list"

definition js_number :: "nat \<Rightarrow> jsval" where
  "js_number n = JNum (int n) 0"

text \<open>
  ECMAScript ToBoolean: the falsy values are undefined, null, false, 0 and the empty
  string. A number literal is first rounded to a double: a nonzero literal whose
  magnitude is at most \<open>2 ^ -1075\<close> (half the least subnormal) rounds to zero, so
  \<open>1e-400\<close> is falsy. The test \<open>2 ^ 1075 * \<bar>m\<bar> > 10 ^ -e\<close> decides this exactly.
\<close>

fun truthy :: "jsval \<Rightarrow> bool" where
  "truthy JUndef = False"
| "truthy JNull = False"
| "truthy (JBool b) = b"
| "truthy (JNum m e) = (m \<noteq> 0 \<and> (0 \<le> e \<or> 10 ^ nat (- e) < 2 ^ 1075 * \<bar>m\<bar>))"
| "truthy (JStr s) = (s \<noteq> [])"
| "truthy (JArr xs) = True"
| "truthy (JObj ms) = True"

text \<open>A property read on an object: the last member with the key, \<open>undefined\<close> if none.\<close>

definition get_member :: "(string \<times> jsval) list \<Rightarrow> string \<Rightarrow> jsval" where
  "get_member ms k = (case map_of (rev ms) k of None \<Rightarrow> JUndef | Some v \<Rightarrow> v)"

text \<open>
  \<open>x.length\<close>: the element count of an array, the code-unit count of a string, the
  \<open>length\<close> member of an object; \<open>undefined\<close> on a boolean or a number, which have no
  such property; a \<open>TypeError\<close> on \<open>null\<close> and \<open>undefined\<close>.
\<close>

fun js_length :: "jsval \<Rightarrow> js_error + jsval" where
  "js_length JUndef = Inl TypeError"
| "js_length JNull = Inl TypeError"
| "js_length (JBool b) = Inr JUndef"
| "js_length (JNum m e) = Inr JUndef"
| "js_length (JStr s) = Inr (js_number (length s))"
| "js_length (JArr xs) = Inr (js_number (length xs))"
| "js_length (JObj ms) = Inr (get_member ms ''length'')"

section \<open>typeof\<close>

text \<open>
  The \<open>typeof\<close> operator on these values: \<open>null\<close>, arrays and objects are all
  \<open>"object"\<close>. The component's field annotations (\<open>cartCount: number\<close>) are claims
  about this type that TypeScript does not check at run time.
\<close>

datatype js_type = TyUndefined | TyObject | TyBoolean | TyNumber | TyString

fun js_typeof :: "jsval \<Rightarrow> js_type" where
  "js_typeof JUndef = TyUndefined"
| "js_typeof JNull = TyObject"
| "js_typeof (JBool b) = TyBoolean"
| "js_typeof (JNum m e) = TyNumber"
| "js_typeof (JStr s) = TyString"
| "js_typeof (JArr xs) = TyObject"
| "js_typeof (JObj ms) = TyObject"

section \<open>String.prototype.includes\<close>

text \<open>
  \<open>s.includes(t)\<close> scans the start positions of \<open>s\<close> from the left and succeeds at
  the first one where \<open>t\<close> occurs; the empty string occurs everywhere.
\<close>

fun starts_with :: "string \<Rightarrow> string \<Rightarrow> bool" where
  "starts_with [] s = True"
| "starts_with (c # t) [] = False"
| "starts_with (c # t) (d # s) = (c = d \<and> starts_with t s)"

fun js_includes :: "string \<Rightarrow> string \<Rightarrow> bool" where
  "js_includes [] t = (t = [])"
| "js_includes (c # s) t = (starts_with t (c # s) \<or> js_includes s t)"

lemma starts_with_prefix [simp]: "starts_with t s \<longleftrightarrow> prefix t s"
  by (induction t s rule: starts_with.induct) auto

section \<open>Properties\<close>

lemma truthy_js_number [simp]: "truthy (js_number n) \<longleftrightarrow> n \<noteq> 0"
  by (simp add: js_number_def)

lemma js_length_error_iff: "(\<exists>e. js_length v = Inl e) \<longleftrightarrow> v = JUndef \<or> v = JNull"
  by (cases v) auto

text \<open>The left-to-right scan of \<open>js_includes\<close> decides exactly the substring relation.\<close>

lemma js_includes_sublist: "js_includes s t \<longleftrightarrow> sublist t s"
  by (induction s) (auto simp: sublist_Cons_right)

lemma truthy_underflow_example: "\<not> truthy (JNum 1 (-400)) \<and> truthy (JNum 1 (-323)) \<and> \<not> truthy (JNum 2 (-324))"
  by code_simp

end
