(* ===== verification/JsonLex.thy ===== *)
theory JsonLex
  imports JsValue
begin

text \<open>
  The lexical level of \<open>JSON.parse\<close> (ECMA-404): character classes, the tokens, and
  the scanners for string and number literals, each returning the text after the
  literal. The lemmas show that every scanner consumes input, which is the termination
  argument of the lexer in \<open>Json\<close>.
\<close>

section \<open>Characters\<close>

definition is_ws :: "char \<Rightarrow> bool" where
  "is_ws c \<longleftrightarrow> c = CHR '' '' \<or> c = CHR 0x09 \<or> c = CHR 0x0A \<or> c = CHR 0x0D"

definition is_digit :: "char \<Rightarrow> bool" where
  "is_digit c \<longleftrightarrow> 48 \<le> (of_char c :: nat) \<and> (of_char c :: nat) \<le> 57"

definition digits_val :: "string \<Rightarrow> nat" where
  "digits_val ds = foldl (\<lambda>a d. 10 * a + (of_char d - 48)) 0 ds"

fun hex_val :: "char \<Rightarrow> nat option" where
  "hex_val c =
     (let n = (of_char c :: nat) in
      if 48 \<le> n \<and> n \<le> 57 then Some (n - 48)
      else if 65 \<le> n \<and> n \<le> 70 then Some (n - 55)
      else if 97 \<le> n \<and> n \<le> 102 then Some (n - 87)
      else None)"

fun hex4 :: "string \<Rightarrow> nat option" where
  "hex4 [a, b, c, d] =
     (case (hex_val a, hex_val b, hex_val c, hex_val d) of
        (Some w, Some x, Some y, Some z) \<Rightarrow> Some (((w * 16 + x) * 16 + y) * 16 + z)
      | _ \<Rightarrow> None)"
| "hex4 _ = None"

text \<open>The one-character escapes after a backslash.\<close>

definition unescape :: "char \<Rightarrow> char option" where
  "unescape e =
     (if e = CHR 0x22 then Some (CHR 0x22)
      else if e = CHR 0x5C then Some (CHR 0x5C)
      else if e = CHR ''/'' then Some (CHR ''/'')
      else if e = CHR ''b'' then Some (CHR 0x08)
      else if e = CHR ''f'' then Some (CHR 0x0C)
      else if e = CHR ''n'' then Some (CHR 0x0A)
      else if e = CHR ''r'' then Some (CHR 0x0D)
      else if e = CHR ''t'' then Some (CHR 0x09)
      else None)"

section \<open>Tokens\<close>

datatype token =
    TLBrack | TRBrack | TLBrace | TRBrace | TColon | TComma
  | TStr string | TNum int int | TTrue | TFalse | TNull

text \<open>
  The body of a string literal, after its opening quote: the decoded characters (the
  accumulator is reversed) and the text after the closing quote. An unescaped control
  character, an unknown escape and a missing closing quote are syntax errors.
\<close>

fun lex_string :: "string \<Rightarrow> string \<Rightarrow> js_error + (string \<times> string)" where
  "lex_string [] acc = Inl SyntaxError"
| "lex_string (c # cs) acc =
     (if c = CHR 0x22 then Inr (rev acc, cs)
      else if c = CHR 0x5C then
        (case cs of
           [] \<Rightarrow> Inl SyntaxError
         | e # r \<Rightarrow>
             (if e = CHR ''u'' then
                (case hex4 (take 4 r) of
                   None \<Rightarrow> Inl SyntaxError
                 | Some n \<Rightarrow>
                     (if n < 256 then lex_string (drop 4 r) (char_of n # acc)
                      else Inl Unsupported))
              else
                (case unescape e of
                   None \<Rightarrow> Inl SyntaxError
                 | Some d \<Rightarrow> lex_string r (d # acc))))
      else if (of_char c :: nat) < 32 then Inl SyntaxError
      else lex_string cs (c # acc))"

text \<open>
  A number literal: an optional minus, an integer part (a lone \<open>0\<close> or digits not
  starting with \<open>0\<close>), an optional fraction with at least one digit, an optional
  exponent with at least one digit. \<open>1.25e3\<close> becomes \<open>TNum 125 1\<close>.
\<close>

fun lex_int :: "string \<Rightarrow> string \<times> string" where
  "lex_int [] = ([], [])"
| "lex_int (c # cs) =
     (if c = CHR ''0'' then ([c], cs)
      else if is_digit c then (c # takeWhile is_digit cs, dropWhile is_digit cs)
      else ([], c # cs))"

fun lex_frac :: "string \<Rightarrow> (string \<times> string) option" where
  "lex_frac [] = Some ([], [])"
| "lex_frac (c # cs) =
     (if c = CHR ''.'' then
        (let d = takeWhile is_digit cs in
         if d = [] then None else Some (d, dropWhile is_digit cs))
      else Some ([], c # cs))"

fun exp_sign :: "string \<Rightarrow> int \<times> string" where
  "exp_sign [] = (1, [])"
| "exp_sign (c # cs) =
     (if c = CHR ''-'' then (-1, cs) else if c = CHR ''+'' then (1, cs) else (1, c # cs))"

fun lex_exp :: "string \<Rightarrow> (int \<times> string) option" where
  "lex_exp [] = Some (0, [])"
| "lex_exp (c # cs) =
     (if c = CHR ''e'' \<or> c = CHR ''E'' then
        (case exp_sign cs of (sg, r) \<Rightarrow>
           (let d = takeWhile is_digit r in
            if d = [] then None else Some (sg * int (digits_val d), dropWhile is_digit r)))
      else Some (0, c # cs))"

fun num_sign :: "string \<Rightarrow> int \<times> string" where
  "num_sign [] = (1, [])"
| "num_sign (c # cs) = (if c = CHR ''-'' then (-1, cs) else (1, c # cs))"

definition lex_number :: "string \<Rightarrow> (token \<times> string) option" where
  "lex_number s =
     (case num_sign s of (sg, s1) \<Rightarrow>
      case lex_int s1 of (ip, s2) \<Rightarrow>
        (if ip = [] then None
         else case lex_frac s2 of
           None \<Rightarrow> None
         | Some (fp, s3) \<Rightarrow>
             (case lex_exp s3 of
                None \<Rightarrow> None
              | Some (ex, s4) \<Rightarrow>
                  Some (TNum (sg * int (digits_val (ip @ fp))) (ex - int (length fp)), s4))))"

section \<open>Scanners consume input\<close>

lemma lex_string_shorter:
  "lex_string cs acc = Inr (x, r) \<Longrightarrow> length r < Suc (length cs)"
proof (induction cs acc rule: lex_string.induct)
  case (2 c cs acc)
  show ?case
  proof (cases "c = CHR 0x22")
    case True with "2.prems" show ?thesis by simp
  next
    case nq: False
    show ?thesis
    proof (cases "c = CHR 0x5C")
      case True
      show ?thesis
      proof (cases cs)
        case Nil with True nq "2.prems" show ?thesis by simp
      next
        case (Cons e r0)
        show ?thesis
        proof (cases "e = CHR ''u''")
          case True
          with "2.prems" nq \<open>c = CHR 0x5C\<close> Cons obtain n where "hex4 (take 4 r0) = Some n" "n < 256"
            and "lex_string (drop 4 r0) (char_of n # acc) = Inr (x, r)"
            by (auto split: option.splits if_splits)
          with "2.IH"(1)[OF nq \<open>c = CHR 0x5C\<close> Cons True] Cons show ?thesis by auto
        next
          case False
          with "2.prems" nq \<open>c = CHR 0x5C\<close> Cons obtain d where "unescape e = Some d"
            and "lex_string r0 (d # acc) = Inr (x, r)"
            by (auto split: option.splits)
          with "2.IH"(2)[OF nq \<open>c = CHR 0x5C\<close> Cons False] Cons show ?thesis by auto
        qed
      qed
    next
      case False
      from "2.prems" nq False have nc: "\<not> (of_char c :: nat) < 32"
        and "lex_string cs (c # acc) = Inr (x, r)" by (simp_all split: if_splits)
      with "2.IH"(3)[OF nq False nc] show ?thesis by simp
    qed
  qed
qed simp

lemma lex_int_split: "lex_int s = (ip, r) \<Longrightarrow> ip @ r = s"
  by (cases s) (auto split: if_splits)

lemma lex_frac_shorter: "lex_frac s = Some (fp, r) \<Longrightarrow> length r \<le> length s"
  by (cases s) (auto simp: Let_def length_dropWhile_le le_SucI split: if_splits)

lemma exp_sign_shorter: "exp_sign s = (sg, r) \<Longrightarrow> length r \<le> length s"
  by (cases s) (auto split: if_splits)

lemma lex_exp_shorter: "lex_exp s = Some (ex, r) \<Longrightarrow> length r \<le> length s"
proof (cases s)
  case (Cons c cs)
  assume a: "lex_exp s = Some (ex, r)"
  obtain sg r0 where sg: "exp_sign cs = (sg, r0)" by fastforce
  from sg have "length r0 \<le> length cs" by (rule exp_sign_shorter)
  with a Cons sg show ?thesis
    by (auto simp: Let_def split: if_splits intro: le_SucI order.trans[OF length_dropWhile_le])
qed simp

lemma num_sign_shorter: "num_sign s = (sg, r) \<Longrightarrow> length r \<le> length s"
  by (cases s) (auto split: if_splits)

lemma lex_number_shorter: "lex_number s = Some (t, r) \<Longrightarrow> length r < length s"
proof -
  assume a: "lex_number s = Some (t, r)"
  obtain sg s1 where s1: "num_sign s = (sg, s1)" by fastforce
  obtain ip s2 where s2: "lex_int s1 = (ip, s2)" by fastforce
  from a s1 s2 obtain fp s3 ex where ip: "ip \<noteq> []" and s3: "lex_frac s2 = Some (fp, s3)"
    and s4: "lex_exp s3 = Some (ex, r)"
    by (auto simp: lex_number_def split: if_splits option.splits)
  have "length s1 \<le> length s" using s1 by (rule num_sign_shorter)
  moreover have "length s2 < length s1"
    using lex_int_split[OF s2] ip by auto
  moreover have "length s3 \<le> length s2" using s3 by (rule lex_frac_shorter)
  moreover have "length r \<le> length s3" using s4 by (rule lex_exp_shorter)
  ultimately show ?thesis by linarith
qed

end
