(* ===== verification/Json.thy ===== *)
theory Json
  imports JsonLex
begin

text \<open>
  \<open>JSON.parse\<close>, which the header applies to the three storage entries. The text is
  split into tokens by the lexer \<open>json_lex\<close> (whitespace, punctuation, string and number
  literals, the three keywords), and the token list is read by a stack machine whose
  frames are the arrays and objects still open. Every failure of the grammar is the
  \<open>SyntaxError\<close> that \<open>JSON.parse\<close> throws.
\<close>

section \<open>Lexer\<close>

definition tcons :: "token \<Rightarrow> js_error + token list \<Rightarrow> js_error + token list" where
  "tcons t r = (case r of Inl e \<Rightarrow> Inl e | Inr ts \<Rightarrow> Inr (t # ts))"

function json_lex :: "string \<Rightarrow> js_error + token list" where
  "json_lex [] = Inr []"
| "json_lex (c # cs) =
     (if is_ws c then json_lex cs
      else if c = CHR ''['' then tcons TLBrack (json_lex cs)
      else if c = CHR '']'' then tcons TRBrack (json_lex cs)
      else if c = CHR ''{'' then tcons TLBrace (json_lex cs)
      else if c = CHR ''}'' then tcons TRBrace (json_lex cs)
      else if c = CHR '':'' then tcons TColon (json_lex cs)
      else if c = CHR '','' then tcons TComma (json_lex cs)
      else if c = CHR 0x22 then
        (case lex_string cs [] of
           Inl e \<Rightarrow> Inl e
         | Inr (str, rest) \<Rightarrow> tcons (TStr str) (json_lex rest))
      else if c = CHR ''-'' \<or> is_digit c then
        (case lex_number (c # cs) of
           None \<Rightarrow> Inl SyntaxError
         | Some (t, rest) \<Rightarrow> tcons t (json_lex rest))
      else if c = CHR ''t'' then
        (if take 3 cs = ''rue'' then tcons TTrue (json_lex (drop 3 cs)) else Inl SyntaxError)
      else if c = CHR ''f'' then
        (if take 4 cs = ''alse'' then tcons TFalse (json_lex (drop 4 cs)) else Inl SyntaxError)
      else if c = CHR ''n'' then
        (if take 3 cs = ''ull'' then tcons TNull (json_lex (drop 3 cs)) else Inl SyntaxError)
      else Inl SyntaxError)"
  by pat_completeness auto
termination
proof (relation "measure length", simp_all)
  fix cs b x y
  assume "lex_string cs [] = Inr b" and "(x, y) = b"
  then show "length y < Suc (length cs)" by (metis lex_string_shorter)
next
  fix c cs p x y
  assume "lex_number (c # cs) = Some p" and "(x, y) = p"
  then show "length y < Suc (length cs)" by (metis lex_number_shorter length_Cons)
qed

section \<open>Parser\<close>

text \<open>
  The parser's stack holds the arrays and objects still open: an array with the
  elements read so far (reversed), an object with its members so far (reversed) and
  the key whose value is being read. Its mode says what may come next.
\<close>

datatype frame = FArr "jsval list" | FObj "(string \<times> jsval) list" string

datatype pmode =
    MVal                              \<comment> \<open>a value\<close>
  | MArr0                             \<comment> \<open>after \<open>[\<close>: a value or \<open>]\<close>\<close>
  | MObj0                             \<comment> \<open>after \<open>{\<close>: a key or \<open>}\<close>\<close>
  | MKey "(string \<times> jsval) list"   \<comment> \<open>after \<open>,\<close> in an object: a key\<close>
  | MColon                            \<comment> \<open>after a key: \<open>:\<close>\<close>
  | MAfter jsval                      \<comment> \<open>a value is complete\<close>

fun start_value :: "token \<Rightarrow> frame list \<Rightarrow> (pmode \<times> frame list) option" where
  "start_value (TStr s) st = Some (MAfter (JStr s), st)"
| "start_value (TNum m e) st = Some (MAfter (JNum m e), st)"
| "start_value TTrue st = Some (MAfter (JBool True), st)"
| "start_value TFalse st = Some (MAfter (JBool False), st)"
| "start_value TNull st = Some (MAfter JNull, st)"
| "start_value TLBrack st = Some (MArr0, st)"
| "start_value TLBrace st = Some (MObj0, st)"
| "start_value _ st = None"

fun after_value :: "jsval \<Rightarrow> token \<Rightarrow> frame list \<Rightarrow> (pmode \<times> frame list) option" where
  "after_value v TComma (FArr es # st) = Some (MVal, FArr (v # es) # st)"
| "after_value v TRBrack (FArr es # st) = Some (MAfter (JArr (rev (v # es))), st)"
| "after_value v TComma (FObj ms k # st) = Some (MKey ((k, v) # ms), st)"
| "after_value v TRBrace (FObj ms k # st) = Some (MAfter (JObj (rev ((k, v) # ms))), st)"
| "after_value v t st = None"

fun pstep :: "token \<Rightarrow> pmode \<Rightarrow> frame list \<Rightarrow> (pmode \<times> frame list) option" where
  "pstep t MVal st = start_value t st"
| "pstep t MArr0 st =
     (if t = TRBrack then Some (MAfter (JArr []), st) else start_value t (FArr [] # st))"
| "pstep t MObj0 st =
     (case t of
        TRBrace \<Rightarrow> Some (MAfter (JObj []), st)
      | TStr k \<Rightarrow> Some (MColon, FObj [] k # st)
      | _ \<Rightarrow> None)"
| "pstep t (MKey ms) st = (case t of TStr k \<Rightarrow> Some (MColon, FObj ms k # st) | _ \<Rightarrow> None)"
| "pstep t MColon st = (if t = TColon then Some (MVal, st) else None)"
| "pstep t (MAfter v) st = after_value v t st"

fun parse_toks :: "token list \<Rightarrow> pmode \<Rightarrow> frame list \<Rightarrow> js_error + jsval" where
  "parse_toks [] (MAfter v) [] = Inr v"
| "parse_toks [] m st = Inl SyntaxError"
| "parse_toks (t # ts) m st =
     (case pstep t m st of
        None \<Rightarrow> Inl SyntaxError
      | Some (m', st') \<Rightarrow> parse_toks ts m' st')"

definition json_parse :: "string \<Rightarrow> js_error + jsval" where
  "json_parse s = (case json_lex s of Inl e \<Rightarrow> Inl e | Inr ts \<Rightarrow> parse_toks ts MVal [])"

section \<open>Examples\<close>

lemma json_parse_array_example: "json_parse ''[1, 2,3]'' = Inr (JArr [JNum 1 0, JNum 2 0, JNum 3 0])"
  by code_simp

lemma json_parse_object_example: "json_parse ''{\"a\": [true, null], \"b\": -1.5e2}'' = Inr (JObj [(''a'', JArr [JBool True, JNull]), (''b'', JNum (-15) 1)])"
  by code_simp

lemma json_parse_trailing_comma: "json_parse ''[1,]'' = Inl SyntaxError" by code_simp

lemma json_parse_leading_zero: "json_parse ''01'' = Inl SyntaxError" by code_simp

lemma json_parse_null_example: "json_parse ''null'' = Inr JNull" by code_simp

section \<open>Properties\<close>

text \<open>
  \<open>JSON.parse\<close> fails only with a syntax error (or on the one unmodelled escape), never
  with a \<open>TypeError\<close>, and what it returns is a JSON value, never \<open>undefined\<close>.
\<close>

lemma tcons_Inl [simp]: "tcons t r = Inl e \<longleftrightarrow> r = Inl e"
  by (cases r) (auto simp: tcons_def)

lemma tcons_Inr [simp]: "tcons t r = Inr ts \<longleftrightarrow> (\<exists>ts'. r = Inr ts' \<and> ts = t # ts')"
  by (cases r) (auto simp: tcons_def)

lemma lex_string_error: "lex_string cs acc = Inl e \<Longrightarrow> e = SyntaxError \<or> e = Unsupported"
proof (induction cs acc rule: lex_string.induct)
  case (2 c cs acc)
  show ?case
  proof (cases "c = CHR 0x22")
    case True with "2.prems" show ?thesis by simp
  next
    case nq: False
    show ?thesis
    proof (cases "c = CHR 0x5C")
      case bs: True
      show ?thesis
      proof (cases cs)
        case Nil with bs "2.prems" show ?thesis by simp
      next
        case (Cons d r)
        show ?thesis
        proof (cases "d = CHR ''u''")
          case True
          with "2.prems" bs Cons have "hex4 (take 4 r) = None \<and> e = SyntaxError
              \<or> (\<exists>n. hex4 (take 4 r) = Some n \<and> (n < 256 \<and> lex_string (drop 4 r) (char_of n # acc) = Inl e
                   \<or> \<not> n < 256 \<and> e = Unsupported))"
            by (auto split: option.splits if_splits)
          with "2.IH"(1)[OF _ bs Cons True] nq show ?thesis by auto
        next
          case False
          with "2.prems" bs Cons have "unescape d = None \<and> e = SyntaxError
              \<or> (\<exists>x. unescape d = Some x \<and> lex_string r (x # acc) = Inl e)"
            by (auto split: option.splits)
          with "2.IH"(2)[OF _ bs Cons False] nq show ?thesis by auto
        qed
      qed
    next
      case False
      show ?thesis
      proof (cases "(of_char c :: nat) < 32")
        case True with nq False "2.prems" show ?thesis by simp
      next
        case ctl: False
        with nq False "2.prems" have "lex_string cs (c # acc) = Inl e" by simp
        with "2.IH"(3)[OF nq False ctl] show ?thesis .
      qed
    qed
  qed
qed simp

lemma json_lex_Cons_Inl:
  assumes "json_lex (c # cs) = Inl e"
  shows "e = SyntaxError \<or> json_lex cs = Inl e \<or> (\<exists>k. json_lex (drop k cs) = Inl e)
    \<or> lex_string cs [] = Inl e
    \<or> (\<exists>x r. lex_string cs [] = Inr (x, r) \<and> json_lex r = Inl e)
    \<or> (\<exists>t r. lex_number (c # cs) = Some (t, r) \<and> json_lex r = Inl e)"
  using assms
  apply (simp only: json_lex.simps(2))
  apply (simp split: if_split_asm sum.split_asm option.split_asm prod.split_asm)
  apply blast+
  done

lemma json_lex_error: "json_lex s = Inl e \<Longrightarrow> e = SyntaxError \<or> e = Unsupported"
proof (induction "length s" arbitrary: s rule: less_induct)
  case less
  show ?case
  proof (cases s)
    case Nil with less.prems show ?thesis by simp
  next
    case (Cons c cs)
    have IH: "\<And>r. json_lex r = Inl e \<Longrightarrow> length r < Suc (length cs) \<Longrightarrow> e = SyntaxError \<or> e = Unsupported"
      using less.hyps Cons by auto
    from less.prems Cons have "json_lex (c # cs) = Inl e" by simp
    then show ?thesis
    proof (rule json_lex_Cons_Inl[THEN disjE], simp, elim disjE exE conjE)
      assume "json_lex cs = Inl e" then show ?thesis by (rule IH) simp
    next
      fix k assume "json_lex (drop k cs) = Inl e" then show ?thesis by (rule IH) simp
    next
      assume "lex_string cs [] = Inl e" then show ?thesis by (rule lex_string_error)
    next
      fix x r assume s: "lex_string cs [] = Inr (x, r)" and j: "json_lex r = Inl e"
      from s have "length r < Suc (length cs)" by (rule lex_string_shorter)
      with j show ?thesis by (rule IH)
    next
      fix t r assume "lex_number (c # cs) = Some (t, r)" and "json_lex r = Inl e"
      then show ?thesis using IH lex_number_shorter by fastforce
    qed
  qed
qed

lemma parse_toks_error: "parse_toks ts m st = Inl e \<Longrightarrow> e = SyntaxError"
  by (induction ts m st rule: parse_toks.induct) (auto split: option.splits)

lemma start_value_defined: "start_value t st = Some (MAfter v, st') \<Longrightarrow> v \<noteq> JUndef"
  by (cases t) auto

lemma after_value_defined: "after_value u t st = Some (MAfter v, st') \<Longrightarrow> v \<noteq> JUndef"
  by (induction u t st rule: after_value.induct) auto

lemma pstep_defined: "pstep t m st = Some (MAfter v, st') \<Longrightarrow> v \<noteq> JUndef"
  by (cases m) (auto split: if_splits token.splits dest: start_value_defined after_value_defined)

lemma parse_toks_defined:
  "parse_toks ts m st = Inr v \<Longrightarrow> m \<noteq> MAfter JUndef \<Longrightarrow> v \<noteq> JUndef"
proof (induction ts m st rule: parse_toks.induct)
  case (3 t ts m st)
  from "3.prems"(1) obtain m' st' where p: "pstep t m st = Some (m', st')"
    and r: "parse_toks ts m' st' = Inr v" by (auto split: option.splits)
  from p have "m' \<noteq> MAfter JUndef" using pstep_defined by blast
  with "3.IH"[OF p refl] r show ?case by blast
qed auto

lemma json_parse_defined: "json_parse s = Inr v \<Longrightarrow> v \<noteq> JUndef"
  by (auto simp: json_parse_def split: sum.splits dest: parse_toks_defined)

lemma json_parse_error: "json_parse s = Inl e \<Longrightarrow> e = SyntaxError \<or> e = Unsupported"
  by (auto simp: json_parse_def split: sum.splits dest: json_lex_error parse_toks_error)

end
