(* ===== verification/Storage.thy ===== *)
theory Storage
  imports Json
begin

text \<open>
  The browser's \<open>localStorage\<close> as the header uses it: a map from keys to stored
  texts, read with \<open>getItem\<close> (\<open>null\<close> for a missing key, here \<open>None\<close>) and cleared
  with \<open>removeItem\<close>; \<open>setItem\<close> is what the login flows of other components do.
  Then the two ways the header tests an entry: the raw text's truthiness
  (\<open>if (cartData)\<close>, \<open>if (user)\<close>), and the idiom \<open>store && JSON.parse(store)\<close> that
  reads a session marker.
\<close>

type_synonym storage = "storage_key \<rightharpoonup> string"

definition getItem :: "storage \<Rightarrow> storage_key \<Rightarrow> string option" where
  "getItem st k = st k"

definition setItem :: "storage \<Rightarrow> storage_key \<Rightarrow> string \<Rightarrow> storage" where
  "setItem st k v = st(k \<mapsto> v)"

definition removeItem :: "storage \<Rightarrow> storage_key \<Rightarrow> storage" where
  "removeItem st k = st(k := None)"

text \<open>The truthiness of \<open>getItem\<close>'s result: \<open>null\<close> and the empty text are falsy.\<close>

definition item_truthy :: "string option \<Rightarrow> bool" where
  "item_truthy r = (case r of None \<Rightarrow> False | Some s \<Rightarrow> s \<noteq> [])"

text \<open>
  \<open>let data = store && JSON.parse(store)\<close> with \<open>store = localStorage.getItem(k)\<close>:
  \<open>&&\<close> returns its left operand when that is falsy (\<open>null\<close>, or the empty text,
  which is never parsed) and otherwise the parsed value, or the parser's exception.
\<close>

definition read_marker :: "string option \<Rightarrow> js_error + jsval" where
  "read_marker r =
     (case r of
        None \<Rightarrow> Inr JNull
      | Some s \<Rightarrow> (if s = [] then Inr (JStr []) else json_parse s))"

section \<open>Properties\<close>

lemma getItem_setItem: "getItem (setItem st k v) k' = (if k' = k then Some v else getItem st k')"
  by (simp add: getItem_def setItem_def)

lemma getItem_removeItem: "getItem (removeItem st k) k' = (if k' = k then None else getItem st k')"
  by (simp add: getItem_def removeItem_def)

lemma dom_removeItem: "dom (removeItem st k) = dom st - {k}"
  by (auto simp: removeItem_def)

lemma read_marker_absent [simp]: "read_marker None = Inr JNull"
  by (simp add: read_marker_def)

text \<open>
  A marker counts as a session only if its parsed value is truthy: a key that is
  absent, empty, or holds the JSON text of a falsy value (\<open>null\<close>, \<open>false\<close>, \<open>0\<close>,
  \<open>""\<close>) reads as no session.
\<close>

lemma read_marker_truthy:
  "read_marker r = Inr v \<Longrightarrow> truthy v \<Longrightarrow> item_truthy r"
  by (auto simp: read_marker_def item_truthy_def split: option.splits if_splits)

lemma read_marker_error_present:
  "read_marker r = Inl e \<Longrightarrow> item_truthy r"
  by (auto simp: read_marker_def item_truthy_def split: option.splits if_splits)

end
