(* ===== verification/Header.thy ===== *)
theory Header
  imports Storage
begin

text \<open>
  The component \<open>HeadersComponent\<close> of \<open>src/app/headers/headers.component.ts\<close>: its
  fields, the observables it subscribes to, and one definition per method and per
  callback. The component runs in a \<open>world\<close>: its own fields, the storage, its
  subscriptions to the router and to \<open>ShopService.cartDataLength\<close>, the requests it
  has subscribed to and that have not yet answered, the navigations and service calls
  it made, and the uncaught exceptions it raised. Products are a type parameter: the
  component never looks inside one.
\<close>

section \<open>State\<close>

text \<open>\<open>menuType\<close> holds one of the three strings \<open>'default'\<close>, \<open>'seller'\<close>, \<open>'customer'\<close>.\<close>

datatype menu = MenuDefault | MenuSeller | MenuCustomer

record 'p header =
  menuType :: menu
  userName :: string
  isHidden :: bool
  searchResults :: "'p list option"
  cartCount :: jsval

definition header_init :: "'p header" where
  "header_init =
     \<lparr>menuType = MenuDefault, userName = [], isHidden = False,
      searchResults = None, cartCount = js_number 0\<rparr>"

text \<open>
  The observables the component subscribes to and whose answer is still to come:
  \<open>sellerSignupService.getUser\<close> and \<open>customerSignupService.getUser\<close> with the marker
  they were given, and \<open>shopService.searchProducts\<close> with the query text.
\<close>

datatype request = SellerGetUser jsval | CustomerGetUser jsval | SearchProducts string

record 'p world =
  hdr :: "'p header"
  store :: storage
  routerSub :: bool
  cartSub :: bool
  pending :: "request list"
  navigations :: "url list"
  cartFetches :: nat
  emitted :: "'p list list"
  errors :: "js_error list"

definition world_init :: "storage \<Rightarrow> 'p world" where
  "world_init st =
     \<lparr>hdr = header_init, store = st, routerSub = False, cartSub = False, pending = [],
      navigations = [], cartFetches = 0, emitted = [], errors = []\<rparr>"

section \<open>Effects\<close>

definition upd_hdr :: "('p header \<Rightarrow> 'p header) \<Rightarrow> 'p world \<Rightarrow> 'p world" where
  "upd_hdr f w = w\<lparr>hdr := f (hdr w)\<rparr>"

text \<open>An exception thrown in a handler ends it; the framework reports it.\<close>

definition raise :: "js_error \<Rightarrow> 'p world \<Rightarrow> 'p world" where
  "raise e w = w\<lparr>errors := errors w @ [e]\<rparr>"

definition subscribe_req :: "request \<Rightarrow> 'p world \<Rightarrow> 'p world" where
  "subscribe_req r w = w\<lparr>pending := pending w @ [r]\<rparr>"

text \<open>\<open>router.navigate([path])\<close>: the navigation is requested; its router events come later.\<close>

definition navigate :: "url \<Rightarrow> 'p world \<Rightarrow> 'p world" where
  "navigate p w = w\<lparr>navigations := navigations w @ [p]\<rparr>"

section \<open>Callbacks\<close>

definition seller_user_cb :: "string \<Rightarrow> 'p header \<Rightarrow> 'p header" where
  "seller_user_cb name h = h\<lparr>userName := name, menuType := MenuSeller\<rparr>"

definition customer_user_cb :: "string \<Rightarrow> 'p header \<Rightarrow> 'p header" where
  "customer_user_cb name h = h\<lparr>userName := name, menuType := MenuCustomer\<rparr>"

text \<open>\<open>if (res.length > 5) res.length = 5\<close>: the array is cut to its first five elements.\<close>

definition limit_results :: "'p list \<Rightarrow> 'p list" where
  "limit_results res = (if length res > 5 then take 5 res else res)"

definition search_cb :: "'p list \<Rightarrow> 'p header \<Rightarrow> 'p header" where
  "search_cb res h = h\<lparr>searchResults := Some (limit_results res)\<rparr>"

definition cart_length_cb :: "'p list \<Rightarrow> 'p header \<Rightarrow> 'p header" where
  "cart_length_cb res h = h\<lparr>cartCount := js_number (length res)\<rparr>"

section \<open>Handlers\<close>

text \<open>
  The router-event callback subscribed in \<open>ngOnInit\<close>. Both markers are read and
  parsed before any test, so a malformed customer marker throws even where the seller
  branch would be taken. The seller and customer branches only subscribe to
  \<open>getUser\<close>; the menu changes when that answers. The default branch changes it at once.
\<close>

definition on_router_event :: "url option \<Rightarrow> 'p world \<Rightarrow> 'p world" where
  "on_router_event u w =
     (case u of
        None \<Rightarrow> w
      | Some url \<Rightarrow>
          (if url = [] then w
           else
             (case read_marker (getItem (store w) ''admin'') of
                Inl e \<Rightarrow> raise e w
              | Inr sellerData \<Rightarrow>
                  (case read_marker (getItem (store w) ''customer'') of
                     Inl e \<Rightarrow> raise e w
                   | Inr customerData \<Rightarrow>
                       (if truthy sellerData \<and> js_includes url ''products''
                        then subscribe_req (SellerGetUser sellerData) w
                        else if truthy customerData
                        then subscribe_req (CustomerGetUser customerData) w
                        else upd_hdr (\<lambda>h. h\<lparr>menuType := MenuDefault\<rparr>) w)))))"

text \<open>
  \<open>if (cartData) this.cartCount = JSON.parse(cartData).length\<close>: \<open>None\<close> when the entry
  is falsy and nothing is assigned, else the new count or the exception.
\<close>

definition load_local_cart :: "string option \<Rightarrow> js_error + jsval option" where
  "load_local_cart cartData =
     (if item_truthy cartData then
        (case json_parse (the cartData) of
           Inl e \<Rightarrow> Inl e
         | Inr v \<Rightarrow> (case js_length v of Inl e \<Rightarrow> Inl e | Inr n \<Rightarrow> Inr (Some n)))
      else Inr None)"

text \<open>
  \<open>ngOnInit\<close>, in the order of its statements: subscribe to the router's events, load
  the local cart count, ask the shop service to fetch the cart when a customer entry
  is present, subscribe to \<open>cartDataLength\<close>. An exception from the local cart ends it
  after the first subscription and before the other two steps.
\<close>

definition ngOnInit :: "'p world \<Rightarrow> 'p world" where
  "ngOnInit w =
     (let w1 = w\<lparr>routerSub := True\<rparr> in
      case load_local_cart (getItem (store w1) ''localCart'') of
        Inl e \<Rightarrow> raise e w1
      | Inr c \<Rightarrow>
          (let w2 = (case c of None \<Rightarrow> w1 | Some n \<Rightarrow> upd_hdr (\<lambda>h. h\<lparr>cartCount := n\<rparr>) w1);
               w3 = (if item_truthy (getItem (store w2) ''customer'')
                     then w2\<lparr>cartFetches := Suc (cartFetches w2)\<rparr> else w2)
           in w3\<lparr>cartSub := True\<rparr>))"

text \<open>
  \<open>cartDataLength.emit(xs)\<close>: an \<open>EventEmitter\<close> calls its subscribers at once, this
  component's among them when it has subscribed.
\<close>

definition emit_cart_length :: "'p list \<Rightarrow> 'p world \<Rightarrow> 'p world" where
  "emit_cart_length xs w =
     (let w' = w\<lparr>emitted := emitted w @ [xs]\<rparr> in
      if cartSub w' then upd_hdr (cart_length_cb xs) w' else w')"

definition onCustomerLogout :: "'p world \<Rightarrow> 'p world" where
  "onCustomerLogout w =
     emit_cart_length [] (navigate ''/'' (w\<lparr>store := removeItem (store w) ''customer''\<rparr>))"

definition onSellerLogout :: "'p world \<Rightarrow> 'p world" where
  "onSellerLogout w = navigate ''/'' (w\<lparr>store := removeItem (store w) ''admin''\<rparr>)"

definition onSearch :: "string \<Rightarrow> 'p world \<Rightarrow> 'p world" where
  "onSearch searchVal w = navigate (''/search/'' @ searchVal) w"

text \<open>\<open>searchProduct(queryEventData)\<close>: \<open>None\<close> is a falsy event argument.\<close>

definition searchProduct :: "string option \<Rightarrow> 'p world \<Rightarrow> 'p world" where
  "searchProduct q w = (case q of None \<Rightarrow> w | Some v \<Rightarrow> subscribe_req (SearchProducts v) w)"

definition hideSearch :: "'p world \<Rightarrow> 'p world" where
  "hideSearch w = upd_hdr (\<lambda>h. h\<lparr>searchResults := None\<rparr>) w"

definition redirectToDetails :: "string \<Rightarrow> 'p world \<Rightarrow> 'p world" where
  "redirectToDetails productId w = navigate (''/product-details/'' @ productId) w"

section \<open>Properties\<close>

declare upd_hdr_def [handler_simps] raise_def [handler_simps] subscribe_req_def [handler_simps]
  navigate_def [handler_simps]

lemma world_pending_update_eq: "w\<lparr>pending := a\<rparr> = w\<lparr>pending := b\<rparr> \<longleftrightarrow> a = b"
  by (cases w) simp

lemma world_hdr_neq_pending: "w\<lparr>hdr := h\<rparr> \<noteq> w\<lparr>pending := pending w @ [r]\<rparr>"
  by (cases w) simp

lemma json_parse_Nil: "json_parse [] = Inl SyntaxError"
  by (simp add: json_parse_def)

subsection \<open>The router-event callback\<close>

text \<open>
  The three outcomes of the callback on an event with a URL, once both markers have
  been read: the seller request, the customer request, or the default menu at once.
\<close>

lemma on_router_event_read:
  assumes "u \<noteq> []"
    and "read_marker (getItem (store w) ''admin'') = Inr sd"
    and "read_marker (getItem (store w) ''customer'') = Inr cd"
  shows "on_router_event (Some u) w =
    (if truthy sd \<and> js_includes u ''products'' then subscribe_req (SellerGetUser sd) w
     else if truthy cd then subscribe_req (CustomerGetUser cd) w
     else upd_hdr (\<lambda>h. h\<lparr>menuType := MenuDefault\<rparr>) w)"
  using assms by (simp add: on_router_event_def)

text \<open>C2: with a seller marker and a products URL the seller branch is taken, whatever the customer marker holds.\<close>

theorem router_event_seller_precedence:
  assumes "u \<noteq> []"
    and "read_marker (getItem (store w) ''admin'') = Inr sd" and "truthy sd"
    and "js_includes u ''products''"
    and "read_marker (getItem (store w) ''customer'') = Inr cd"
  shows "on_router_event (Some u) w = w\<lparr>pending := pending w @ [SellerGetUser sd]\<rparr>"
  using on_router_event_read[OF assms(1,2,5)] assms(3,4) by (simp add: handler_simps)

theorem router_event_seller_precedence_witness:
  "read_marker (getItem (store (world_init [''admin'' \<mapsto> ''{\"id\":7}'', ''customer'' \<mapsto> ''{\"id\":8}''] :: nat world)) ''admin'') = Inr (JObj [(''id'', JNum 7 0)])
   \<and> read_marker (getItem (store (world_init [''admin'' \<mapsto> ''{\"id\":7}'', ''customer'' \<mapsto> ''{\"id\":8}''] :: nat world)) ''customer'') = Inr (JObj [(''id'', JNum 8 0)])
   \<and> on_router_event (Some ''/products'') (world_init [''admin'' \<mapsto> ''{\"id\":7}'', ''customer'' \<mapsto> ''{\"id\":8}''] :: nat world)
     = (world_init [''admin'' \<mapsto> ''{\"id\":7}'', ''customer'' \<mapsto> ''{\"id\":8}''])\<lparr>pending := [SellerGetUser (JObj [(''id'', JNum 7 0)])]\<rparr>"
proof -
  let ?w = "world_init [''admin'' \<mapsto> ''{\"id\":7}'', ''customer'' \<mapsto> ''{\"id\":8}''] :: nat world"
  have a: "read_marker (getItem (store ?w) ''admin'') = Inr (JObj [(''id'', JNum 7 0)])" by code_simp
  have c: "read_marker (getItem (store ?w) ''customer'') = Inr (JObj [(''id'', JNum 8 0)])" by code_simp
  have "''/products'' \<noteq> []" "truthy (JObj [(''id'', JNum 7 0)])" "js_includes ''/products'' ''products''"
    by simp_all
  from router_event_seller_precedence[OF this(1) a this(2,3) c] a c show ?thesis
    by (simp add: world_init_def)
qed

text \<open>
  C19: with a truthy seller marker, the seller lookup is subscribed to exactly when the
  URL contains \<open>products\<close> as a substring, wherever in the URL it occurs.
\<close>

theorem router_event_seller_iff_substring:
  assumes "u \<noteq> []"
    and "read_marker (getItem (store w) ''admin'') = Inr sd" and "truthy sd"
    and "read_marker (getItem (store w) ''customer'') = Inr cd"
  shows "on_router_event (Some u) w = w\<lparr>pending := pending w @ [SellerGetUser sd]\<rparr>
    \<longleftrightarrow> sublist ''products'' u"
  using on_router_event_read[OF assms(1,2,4)] assms(3)
  by (auto simp: js_includes_sublist handler_simps world_pending_update_eq world_hdr_neq_pending)

theorem router_event_seller_iff_substring_witness:
  "on_router_event (Some ''/seller/my-products'') (world_init [''admin'' \<mapsto> ''{\"id\":7}''] :: nat world)
     = (world_init [''admin'' \<mapsto> ''{\"id\":7}''])\<lparr>pending := [SellerGetUser (JObj [(''id'', JNum 7 0)])]\<rparr>"
proof -
  let ?w = "world_init [''admin'' \<mapsto> ''{\"id\":7}''] :: nat world"
  have a: "read_marker (getItem (store ?w) ''admin'') = Inr (JObj [(''id'', JNum 7 0)])" by code_simp
  have c: "read_marker (getItem (store ?w) ''customer'') = Inr JNull"
    by (simp add: world_init_def getItem_def)
  have u: "''/seller/my-products'' \<noteq> []" and t: "truthy (JObj [(''id'', JNum 7 0)])" by simp_all
  have "sublist ''products'' ''/seller/my-products''"
    by (simp add: sublist_def exI[of _ "''/seller/my-''"])
  with router_event_seller_iff_substring[OF u a t c] show ?thesis by (simp add: world_init_def)
qed

text \<open>
  C3: with no truthy seller marker on a products URL and no truthy customer marker, the
  menu becomes the default at once; nothing else changes, the user name included.
\<close>

theorem router_event_default:
  assumes "u \<noteq> []"
    and "read_marker (getItem (store w) ''admin'') = Inr sd"
    and "read_marker (getItem (store w) ''customer'') = Inr cd"
    and "\<not> (truthy sd \<and> js_includes u ''products'')" and "\<not> truthy cd"
  shows "on_router_event (Some u) w = w\<lparr>hdr := (hdr w)\<lparr>menuType := MenuDefault\<rparr>\<rparr>"
  using on_router_event_read[OF assms(1-3)] assms(4,5) by (simp add: handler_simps)

theorem router_event_default_witness:
  "on_router_event (Some ''/'') (world_init Map.empty :: nat world)
     = (world_init Map.empty)\<lparr>hdr := (hdr (world_init Map.empty))\<lparr>menuType := MenuDefault\<rparr>\<rparr>"
proof -
  let ?w = "world_init Map.empty :: nat world"
  have a: "read_marker (getItem (store ?w) ''admin'') = Inr JNull"
    and c: "read_marker (getItem (store ?w) ''customer'') = Inr JNull"
    by (simp_all add: world_init_def getItem_def)
  have "''/'' \<noteq> []" "\<not> (truthy JNull \<and> js_includes ''/'' ''products'')" "\<not> truthy JNull" by simp_all
  from router_event_default[OF this(1) a c this(2,3)] show ?thesis .
qed

text \<open>
  C4: a seller marker that is not valid JSON makes the callback throw the parser's
  error before anything else happens, even when the customer marker is valid.
\<close>

theorem router_event_marker_error:
  assumes "u \<noteq> []" and "read_marker (getItem (store w) ''admin'') = Inl e"
  shows "on_router_event (Some u) w = w\<lparr>errors := errors w @ [e]\<rparr>"
  using assms by (simp add: on_router_event_def handler_simps)

theorem router_event_marker_error_witness:
  "read_marker (getItem (store (world_init [''admin'' \<mapsto> ''{bad'', ''customer'' \<mapsto> ''{}''] :: nat world)) ''admin'') = Inl SyntaxError
   \<and> on_router_event (Some ''/products'') (world_init [''admin'' \<mapsto> ''{bad'', ''customer'' \<mapsto> ''{}''] :: nat world)
     = (world_init [''admin'' \<mapsto> ''{bad'', ''customer'' \<mapsto> ''{}'']) \<lparr>errors := [SyntaxError]\<rparr>"
proof -
  let ?w = "world_init [''admin'' \<mapsto> ''{bad'', ''customer'' \<mapsto> ''{}''] :: nat world"
  have a: "read_marker (getItem (store ?w) ''admin'') = Inl SyntaxError" by code_simp
  have "''/products'' \<noteq> []" by simp
  from router_event_marker_error[OF this a] a show ?thesis by (simp add: world_init_def)
qed

lemma router_event_no_url: "on_router_event None w = w" "on_router_event (Some []) w = w"
  by (simp_all add: on_router_event_def)

subsection \<open>Initialisation\<close>

lemma load_local_cart_null: "load_local_cart (Some ''null'') = Inl TypeError"
  by (simp add: load_local_cart_def item_truthy_def json_parse_null_example)

lemma load_local_cart_array:
  "cartData = Some s \<Longrightarrow> json_parse s = Inr (JArr xs) \<Longrightarrow>
   load_local_cart cartData = Inr (Some (js_number (length xs)))"
  by (cases "s = []") (simp_all add: load_local_cart_def item_truthy_def json_parse_Nil)

lemma ngOnInit_ok:
  assumes "load_local_cart (getItem (store w) ''localCart'') = Inr c"
  shows "routerSub (ngOnInit w) \<and> cartSub (ngOnInit w)
    \<and> cartCount (hdr (ngOnInit w)) = (case c of None \<Rightarrow> cartCount (hdr w) | Some n \<Rightarrow> n)
    \<and> cartFetches (ngOnInit w) =
        (if item_truthy (getItem (store w) ''customer'') then Suc (cartFetches w) else cartFetches w)
    \<and> errors (ngOnInit w) = errors w \<and> pending (ngOnInit w) = pending w
    \<and> store (ngOnInit w) = store w"
  using assms by (cases c) (simp_all add: ngOnInit_def handler_simps Let_def getItem_def)

text \<open>
  C5: a local cart holding a JSON array of \<open>n\<close> items and no customer entry: after
  \<open>ngOnInit\<close> the cart count is \<open>n\<close>, both subscriptions are made, and no server
  fetch is asked for.
\<close>

theorem ngOnInit_local_cart:
  assumes "getItem (store w) ''localCart'' = Some s" and "json_parse s = Inr (JArr xs)"
    and "\<not> item_truthy (getItem (store w) ''customer'')"
  shows "cartCount (hdr (ngOnInit w)) = js_number (length xs)
    \<and> cartFetches (ngOnInit w) = cartFetches w \<and> routerSub (ngOnInit w) \<and> cartSub (ngOnInit w)"
  using ngOnInit_ok[OF load_local_cart_array[OF assms(1,2)]] assms(3) by simp

theorem ngOnInit_local_cart_witness:
  "json_parse ''[1,2,3]'' = Inr (JArr [JNum 1 0, JNum 2 0, JNum 3 0])
   \<and> cartCount (hdr (ngOnInit (world_init [''localCart'' \<mapsto> ''[1,2,3]''] :: nat world))) = js_number 3
   \<and> cartFetches (ngOnInit (world_init [''localCart'' \<mapsto> ''[1,2,3]''] :: nat world)) = 0"
proof -
  let ?w = "world_init [''localCart'' \<mapsto> ''[1,2,3]''] :: nat world"
  have g: "getItem (store ?w) ''localCart'' = Some ''[1,2,3]''" by (simp add: world_init_def getItem_def)
  have p: "json_parse ''[1,2,3]'' = Inr (JArr [JNum 1 0, JNum 2 0, JNum 3 0])" by code_simp
  have n: "\<not> item_truthy (getItem (store ?w) ''customer'')"
    by (simp add: world_init_def getItem_def item_truthy_def)
  from ngOnInit_local_cart[OF g p n] p show ?thesis by (simp add: world_init_def eval_nat_numeral)
qed

text \<open>C6: with a customer entry, \<open>ngOnInit\<close> asks the shop service for the cart exactly once.\<close>

theorem ngOnInit_customer_fetch:
  assumes "load_local_cart (getItem (store w) ''localCart'') = Inr c"
    and "item_truthy (getItem (store w) ''customer'')"
  shows "cartFetches (ngOnInit w) = Suc (cartFetches w) \<and> cartSub (ngOnInit w)"
  using ngOnInit_ok[OF assms(1)] assms(2) by simp

theorem ngOnInit_customer_fetch_witness:
  "cartFetches (ngOnInit (world_init [''customer'' \<mapsto> ''{\"id\":8}''] :: nat world)) = 1
   \<and> cartSub (ngOnInit (world_init [''customer'' \<mapsto> ''{\"id\":8}''] :: nat world))"
proof -
  let ?w = "world_init [''customer'' \<mapsto> ''{\"id\":8}''] :: nat world"
  have l: "load_local_cart (getItem (store ?w) ''localCart'') = Inr None"
    by (simp add: world_init_def getItem_def load_local_cart_def item_truthy_def)
  have c: "item_truthy (getItem (store ?w) ''customer'')"
    by (simp add: world_init_def getItem_def item_truthy_def)
  from ngOnInit_customer_fetch[OF l c] show ?thesis by (simp add: world_init_def)
qed

text \<open>
  C7: when the local cart cannot be read (not JSON, or a value without a length such
  as \<open>null\<close>), \<open>ngOnInit\<close> stops with the exception after subscribing to the router:
  the cart fetch is not asked for and \<open>cartDataLength\<close> is never subscribed to.
\<close>

theorem ngOnInit_cart_error:
  assumes "load_local_cart (getItem (store w) ''localCart'') = Inl e"
  shows "ngOnInit w = w\<lparr>routerSub := True, errors := errors w @ [e]\<rparr>"
  using assms by (simp add: ngOnInit_def handler_simps getItem_def)

theorem ngOnInit_cart_error_witness:
  "ngOnInit (world_init [''localCart'' \<mapsto> ''null''] :: nat world)
     = (world_init [''localCart'' \<mapsto> ''null''])\<lparr>routerSub := True, errors := [TypeError]\<rparr>"
proof -
  let ?w = "world_init [''localCart'' \<mapsto> ''null''] :: nat world"
  have "load_local_cart (getItem (store ?w) ''localCart'') = Inl TypeError"
    by (simp add: world_init_def getItem_def load_local_cart_null)
  from ngOnInit_cart_error[OF this] show ?thesis by (simp add: world_init_def)
qed

text \<open>
  C22: a non-empty local cart entry makes \<open>ngOnInit\<close> throw a \<open>TypeError\<close> exactly when
  it is the JSON text of \<open>null\<close>: every other parsed value has a \<open>length\<close> or yields
  \<open>undefined\<close>, and \<open>JSON.parse\<close> itself never throws a \<open>TypeError\<close>.
\<close>

theorem load_local_cart_type_error:
  assumes "s \<noteq> []"
  shows "load_local_cart (Some s) = Inl TypeError \<longleftrightarrow> json_parse s = Inr JNull"
proof (cases "json_parse s")
  case (Inl e)
  then have "e \<noteq> TypeError" by (auto dest: json_parse_error)
  with Inl assms show ?thesis by (simp add: load_local_cart_def item_truthy_def)
next
  case (Inr v)
  then have "v \<noteq> JUndef" by (rule json_parse_defined)
  with Inr assms show ?thesis
    by (cases v) (simp_all add: load_local_cart_def item_truthy_def)
qed

theorem load_local_cart_type_error_witness:
  "''null'' \<noteq> [] \<and> load_local_cart (Some ''null'') = Inl TypeError \<and> json_parse ''null'' = Inr JNull"
proof -
  have n: "''null'' \<noteq> []" by simp
  have p: "json_parse ''null'' = Inr JNull" by (rule json_parse_null_example)
  from load_local_cart_type_error[OF n] p n show ?thesis by simp
qed

subsection \<open>Logout and navigation\<close>

text \<open>
  C9: customer logout removes the \<open>customer\<close> entry and nothing else, navigates to
  \<open>/\<close>, emits an empty cart, and, the component being subscribed, sets its own count to 0.
\<close>

theorem onCustomerLogout_spec:
  assumes "cartSub w"
  shows "store (onCustomerLogout w) = (store w)(''customer'' := None)
    \<and> navigations (onCustomerLogout w) = navigations w @ [''/'']
    \<and> emitted (onCustomerLogout w) = emitted w @ [[]]
    \<and> cartCount (hdr (onCustomerLogout w)) = js_number 0"
  using assms
  by (simp add: onCustomerLogout_def emit_cart_length_def cart_length_cb_def handler_simps
      removeItem_def)

theorem onCustomerLogout_spec_witness:
  "cartSub ((world_init [''customer'' \<mapsto> ''x'']) \<lparr>cartSub := True\<rparr> :: nat world)
   \<and> cartCount (hdr (onCustomerLogout ((world_init [''customer'' \<mapsto> ''x'']) \<lparr>cartSub := True\<rparr> :: nat world))) = js_number 0
   \<and> store (onCustomerLogout ((world_init [''customer'' \<mapsto> ''x'']) \<lparr>cartSub := True\<rparr> :: nat world)) = Map.empty"
proof -
  let ?w = "(world_init [''customer'' \<mapsto> ''x''])\<lparr>cartSub := True\<rparr> :: nat world"
  have "cartSub ?w" by simp
  from onCustomerLogout_spec[OF this] show ?thesis by (simp add: world_init_def)
qed

text \<open>
  C10: seller logout removes the \<open>admin\<close> entry, navigates to \<open>/\<close> and leaves the
  component's fields, the cart count among them, as they were.
\<close>

theorem onSellerLogout_spec:
  "store (onSellerLogout w) = (store w)(''admin'' := None)
    \<and> navigations (onSellerLogout w) = navigations w @ [''/'']
    \<and> hdr (onSellerLogout w) = hdr w \<and> emitted (onSellerLogout w) = emitted w"
  by (simp add: onSellerLogout_def handler_simps removeItem_def)

subsection \<open>Search\<close>

text \<open>
  C32: an entry holding the empty string is read as an absent one: the guard
  \<open>item && JSON.parse(item)\<close> keeps \<open>JSON.parse('')\<close>, which would throw, from running, and
  \<open>if (cartData)\<close> skips it; the router callback and \<open>ngOnInit\<close> do the same with an empty
  seller, customer or cart entry as with none.
\<close>

theorem empty_entry_as_absent:
  assumes "k \<in> {''admin'', ''customer'', ''localCart''}"
  shows "on_router_event u (w\<lparr>store := setItem st k []\<rparr>) =
           (on_router_event u (w\<lparr>store := removeItem st k\<rparr>))\<lparr>store := setItem st k []\<rparr>
    \<and> ngOnInit (w\<lparr>store := setItem st k []\<rparr>) =
           (ngOnInit (w\<lparr>store := removeItem st k\<rparr>))\<lparr>store := setItem st k []\<rparr>"
proof -
  have e: "read_marker (Some []) = Inr (JStr [])" by (simp add: read_marker_def)
  from assms e show ?thesis
    by (auto simp: on_router_event_def ngOnInit_def load_local_cart_def item_truthy_def
        getItem_def setItem_def removeItem_def handler_simps Let_def
        split: option.splits sum.splits)
qed

theorem empty_entry_as_absent_witness:
  "on_router_event (Some ''/products'') ((world_init Map.empty :: nat world)\<lparr>store := setItem Map.empty ''admin'' []\<rparr>) =
     (on_router_event (Some ''/products'') ((world_init Map.empty :: nat world)\<lparr>store := removeItem Map.empty ''admin''\<rparr>))
       \<lparr>store := setItem Map.empty ''admin'' []\<rparr>"
  using empty_entry_as_absent[where k = "''admin''" and u = "Some ''/products''" and w = "world_init Map.empty :: nat world" and st = Map.empty] by simp

end
