(* ===== verification/Events.thy ===== *)
theory Events
  imports Header
begin

text \<open>
  The component in its environment. Everything that happens to it is an event: the
  framework's \<open>ngOnInit\<close> call, a router event, the answer or failure of a request
  it subscribed to, an emission on \<open>cartDataLength\<close>, a template action calling one
  of its methods, and another component writing the storage (the login flows).
  Events arrive one at a time and in any order; requests answer in any order, which is
  how a UI runtime interleaves independent asynchronous callbacks.
\<close>

section \<open>Events and steps\<close>

datatype 'p event =
    NgOnInit
  | RouterEvent "url option"
  | UserResponse nat string
  | SearchResponse nat "'p list"
  | ResponseError nat
  | CartLength "'p list"
  | CustomerLogout
  | SellerLogout
  | Search string
  | SearchKey "string option"
  | HideSearch
  | RedirectToDetails string
  | StorageSet storage_key string
  | StorageRemove storage_key

fun is_user_req :: "request \<Rightarrow> bool" where
  "is_user_req (SellerGetUser m) = True"
| "is_user_req (CustomerGetUser m) = True"
| "is_user_req (SearchProducts q) = False"

definition drop_req :: "nat \<Rightarrow> 'p world \<Rightarrow> 'p world" where
  "drop_req i w = w\<lparr>pending := del_at i (pending w)\<rparr>"

text \<open>The \<open>getUser\<close> request at position \<open>i\<close> answers \<open>{username: name}\<close>: its callback runs.\<close>

fun user_cb :: "request \<Rightarrow> string \<Rightarrow> 'p header \<Rightarrow> 'p header" where
  "user_cb (SellerGetUser m) name h = seller_user_cb name h"
| "user_cb (CustomerGetUser m) name h = customer_user_cb name h"
| "user_cb (SearchProducts q) name h = h"

text \<open>
  One event. \<open>None\<close> is an event the environment cannot produce: a second
  \<open>ngOnInit\<close> (Angular calls it once, and its first effect is the router subscription),
  or an answer to a request that is not pending or is of the other kind. Router events
  and cart emissions reach the component only once it has subscribed to them.
\<close>

fun step :: "'p world \<Rightarrow> 'p event \<Rightarrow> 'p world option" where
  "step w NgOnInit = (if routerSub w then None else Some (ngOnInit w))"
| "step w (RouterEvent u) = Some (if routerSub w then on_router_event u w else w)"
| "step w (UserResponse i name) =
     (if i < length (pending w) \<and> is_user_req (pending w ! i)
      then Some (upd_hdr (user_cb (pending w ! i) name) (drop_req i w)) else None)"
| "step w (SearchResponse i res) =
     (if i < length (pending w) \<and> \<not> is_user_req (pending w ! i)
      then Some (upd_hdr (search_cb res) (drop_req i w)) else None)"
| "step w (ResponseError i) =
     (if i < length (pending w) then Some (raise HttpFailure (drop_req i w)) else None)"
| "step w (CartLength res) = Some (if cartSub w then upd_hdr (cart_length_cb res) w else w)"
| "step w CustomerLogout = Some (onCustomerLogout w)"
| "step w SellerLogout = Some (onSellerLogout w)"
| "step w (Search v) = Some (onSearch v w)"
| "step w (SearchKey q) = Some (searchProduct q w)"
| "step w HideSearch = Some (hideSearch w)"
| "step w (RedirectToDetails pid) = Some (redirectToDetails pid w)"
| "step w (StorageSet k v) = Some (w\<lparr>store := setItem (store w) k v\<rparr>)"
| "step w (StorageRemove k) = Some (w\<lparr>store := removeItem (store w) k\<rparr>)"

fun run :: "'p world \<Rightarrow> 'p event list \<Rightarrow> 'p world option" where
  "run w [] = Some w"
| "run w (e # es) = (case step w e of None \<Rightarrow> None | Some w' \<Rightarrow> run w' es)"

inductive reach :: "'p world \<Rightarrow> bool" where
  init: "reach (world_init st)"
| step: "reach w \<Longrightarrow> step w e = Some w' \<Longrightarrow> reach w'"

text \<open>The events the component itself causes, as opposed to other components' storage writes.\<close>

fun component_event :: "'p event \<Rightarrow> bool" where
  "component_event (StorageSet k v) = False"
| "component_event (StorageRemove k) = False"
| "component_event e = True"

text \<open>What the component keeps true between events.\<close>

definition header_inv :: "'p world \<Rightarrow> bool" where
  "header_inv w \<longleftrightarrow>
     (\<forall>rs. searchResults (hdr w) = Some rs \<longrightarrow> length rs \<le> 5)
   \<and> (cartSub w \<longrightarrow> routerSub w)
   \<and> (\<not> routerSub w \<longrightarrow> cartFetches w = 0 \<and> list_all (\<lambda>r. \<not> is_user_req r) (pending w))
   \<and> cartFetches w \<le> 1"

text \<open>The three route shapes the spec lists: \<open>/\<close>, \<open>/search/{term}\<close>, \<open>/product-details/{id}\<close>.\<close>

definition route_ok :: "url \<Rightarrow> bool" where
  "route_ok p \<longleftrightarrow> p = ''/'' \<or> prefix ''/search/'' p \<or> prefix ''/product-details/'' p"

text \<open>
  The answer a service gives to a request: a \<open>getUser\<close> lookup answers with a user
  name, a product search with a result list; both answer the oldest pending request.
\<close>

definition answer :: "string \<Rightarrow> 'p list \<Rightarrow> request \<Rightarrow> 'p event" where
  "answer name res r = (if is_user_req r then UserResponse 0 name else SearchResponse 0 res)"

text \<open>The events that answer a pending request, successfully or with a failure.\<close>

text \<open>
  The spec's rule for the cart count (section 4.1, step 4): once subscribed, the count is
  the length of the last list emitted on \<open>cartDataLength\<close>, by any component or by
  this one's customer logout (which emits the empty list); before any emission it is
  what it was. \<open>cart_view\<close> is the length of the last emission of a sequence of events.
\<close>

fun cart_event :: "'p event \<Rightarrow> nat option" where
  "cart_event (CartLength xs) = Some (length xs)"
| "cart_event CustomerLogout = Some 0"
| "cart_event e = None"

fun cart_view :: "'p event list \<Rightarrow> nat option" where
  "cart_view [] = None"
| "cart_view (e # es) = (case cart_view es of Some n \<Rightarrow> Some n | None \<Rightarrow> cart_event e)"

definition cart_spec :: "jsval \<Rightarrow> 'p event list \<Rightarrow> jsval" where
  "cart_spec c0 es = (case cart_view es of None \<Rightarrow> c0 | Some n \<Rightarrow> js_number n)"

text \<open>A \<open>getUser\<close> request is made with a marker the code tested truthy.\<close>

fun marker_ok :: "request \<Rightarrow> bool" where
  "marker_ok (SellerGetUser m) = truthy m"
| "marker_ok (CustomerGetUser m) = truthy m"
| "marker_ok (SearchProducts q) = True"

section \<open>Properties\<close>

subsection \<open>Handler frames\<close>

lemma reach_run: "reach w \<Longrightarrow> run w es = Some w' \<Longrightarrow> reach w'"
proof (induction es arbitrary: w)
  case Nil then show ?case by simp
next
  case (Cons e es)
  from Cons.prems(2) obtain w1 where "step w e = Some w1" and "run w1 es = Some w'"
    by (auto split: option.splits)
  with Cons.prems(1) Cons.IH show ?case by (blast intro: reach.step)
qed

lemma on_router_event_cases:
  "on_router_event u w = w \<or> (\<exists>e. on_router_event u w = raise e w)
   \<or> (\<exists>m. on_router_event u w = subscribe_req (SellerGetUser m) w)
   \<or> (\<exists>m. on_router_event u w = subscribe_req (CustomerGetUser m) w)
   \<or> on_router_event u w = upd_hdr (\<lambda>h. h\<lparr>menuType := MenuDefault\<rparr>) w"
  by (auto simp: on_router_event_def split: option.splits sum.splits)

lemma ngOnInit_frame:
  "routerSub (ngOnInit w) \<and> pending (ngOnInit w) = pending w
   \<and> searchResults (hdr (ngOnInit w)) = searchResults (hdr w)
   \<and> cartFetches (ngOnInit w) \<le> Suc (cartFetches w) \<and> store (ngOnInit w) = store w"
  by (auto simp: ngOnInit_def Let_def handler_simps split: sum.splits option.splits)

lemma header_inv_init: "header_inv (world_init st)"
  by (simp add: header_inv_def world_init_def header_init_def)

lemma step_header_inv:
  assumes inv: "header_inv w" and st: "step w e = Some w'"
  shows "header_inv w'"
proof (cases e)
  case NgOnInit
  with st have "\<not> routerSub w" and w': "w' = ngOnInit w" by (simp_all split: if_splits)
  with inv ngOnInit_frame[of w] show ?thesis by (simp add: header_inv_def)
next
  case (RouterEvent u)
  show ?thesis
  proof (cases "routerSub w")
    case True
    with st RouterEvent have w': "w' = on_router_event u w" by simp
    from on_router_event_cases[of u w] inv True show ?thesis
      unfolding w' by (auto simp: header_inv_def handler_simps)
  next
    case False with st RouterEvent inv show ?thesis by simp
  qed
next
  case (UserResponse i name)
  with st obtain r where "i < length (pending w)" "pending w ! i = r" "is_user_req r"
    and w': "w' = upd_hdr (user_cb r name) (drop_req i w)" by (auto split: if_splits)
  moreover have "set (del_at i (pending w)) \<subseteq> set (pending w)" by (rule set_del_at_subset)
  ultimately show ?thesis using inv
    by (cases r) (auto simp: header_inv_def handler_simps drop_req_def seller_user_cb_def
        customer_user_cb_def list_all_iff)
next
  case (SearchResponse i res)
  with st have w': "w' = upd_hdr (search_cb res) (drop_req i w)" by (simp split: if_splits)
  have "set (del_at i (pending w)) \<subseteq> set (pending w)" by (rule set_del_at_subset)
  with inv show ?thesis unfolding w'
    by (auto simp: header_inv_def handler_simps drop_req_def search_cb_def limit_results_def
        list_all_iff)
next
  case (ResponseError i)
  with st have w': "w' = raise HttpFailure (drop_req i w)" by (simp split: if_splits)
  have "set (del_at i (pending w)) \<subseteq> set (pending w)" by (rule set_del_at_subset)
  with inv show ?thesis unfolding w'
    by (auto simp: header_inv_def handler_simps drop_req_def list_all_iff)
qed (use st inv in \<open>auto simp: header_inv_def handler_simps cart_length_cb_def emit_cart_length_def
    onCustomerLogout_def onSellerLogout_def onSearch_def searchProduct_def hideSearch_def
    redirectToDetails_def Let_def split: option.splits if_splits\<close>)

lemma reach_header_inv: "reach w \<Longrightarrow> header_inv w"
proof (induction rule: reach.induct)
  case (init st)
  show ?case by (rule header_inv_init)
next
  case (step w e w')
  then show ?case by (blast intro: step_header_inv)
qed


text \<open>C8: once the component has subscribed to \<open>cartDataLength\<close>, each emission sets the cart count to the emitted array's length, whatever the count was before, and changes nothing else.\<close>

theorem cart_length_overrides:
  assumes "cartSub w" and "step w (CartLength res) = Some w'"
  shows "w' = w\<lparr>hdr := (hdr w)\<lparr>cartCount := js_number (length res)\<rparr>\<rparr>"
  using assms by (simp add: handler_simps cart_length_cb_def)

theorem cart_length_overrides_witness:
  "cartSub ((world_init Map.empty)\<lparr>cartSub := True\<rparr> :: nat world)
   \<and> (\<exists>w'. step ((world_init Map.empty)\<lparr>cartSub := True\<rparr> :: nat world) (CartLength [4, 5]) = Some w'
        \<and> cartCount (hdr w') = js_number (length [4 :: nat, 5]))"
proof -
  let ?w = "(world_init Map.empty)\<lparr>cartSub := True\<rparr> :: nat world"
  obtain w' where s: "step ?w (CartLength [4, 5]) = Some w'" by simp
  have c: "cartSub ?w" by simp
  from cart_length_overrides[OF c s] s c show ?thesis by auto
qed

text \<open>C11: the answer of a pending product search replaces the search results by its first five elements and leaves the pending list without that request.\<close>

theorem search_response_results:
  assumes "step w (SearchResponse i res) = Some w'"
  shows "(\<exists>q. pending w ! i = SearchProducts q) \<and> searchResults (hdr w') = Some (take 5 res)
    \<and> pending w' = del_at i (pending w)"
proof -
  from assms have kind: "\<not> is_user_req (pending w ! i)"
    and w': "w' = upd_hdr (search_cb res) (drop_req i w)" by (simp_all split: if_splits)
  from kind have "\<exists>q. pending w ! i = SearchProducts q"
    by (cases "pending w ! i") simp_all
  with w' show ?thesis
    by (simp add: handler_simps search_cb_def drop_req_def limit_results_def)
qed

theorem search_response_results_witness:
  "step ((world_init Map.empty)\<lparr>pending := [SearchProducts ''ab'']\<rparr> :: nat world) (SearchResponse 0 [1, 2, 3, 4, 5, 6, 7])
     = Some ((world_init Map.empty)\<lparr>hdr := header_init\<lparr>searchResults := Some [1, 2, 3, 4, 5]\<rparr>\<rparr>)
   \<and> searchResults (hdr ((world_init Map.empty)\<lparr>hdr := header_init\<lparr>searchResults := Some [1, 2, 3, 4, 5]\<rparr>\<rparr> :: nat world)) = Some (take 5 [1, 2, 3, 4, 5, 6, 7])"
proof -
  let ?w = "(world_init Map.empty)\<lparr>pending := [SearchProducts ''ab'']\<rparr> :: nat world"
  let ?w' = "(world_init Map.empty)\<lparr>hdr := header_init\<lparr>searchResults := Some [1, 2, 3, 4, 5]\<rparr>\<rparr> :: nat world"
  have s: "step ?w (SearchResponse 0 [1, 2, 3, 4, 5, 6, 7]) = Some ?w'"
    by (simp add: world_init_def handler_simps drop_req_def search_cb_def limit_results_def)
  from search_response_results[OF s] s show ?thesis by simp
qed

text \<open>C12: in every reachable state, the displayed search results hold at most five products.\<close>

theorem reach_results_bounded:
  "reach w \<Longrightarrow> searchResults (hdr w) = Some rs \<Longrightarrow> length rs \<le> 5"
  by (auto dest: reach_header_inv simp: header_inv_def)

theorem reach_results_bounded_witness:
  "reach (the (run (world_init Map.empty) [SearchKey (Some ''a''), SearchResponse 0 [1 :: nat]]))
   \<and> searchResults (hdr (the (run (world_init Map.empty) [SearchKey (Some ''a''), SearchResponse 0 [1 :: nat]]))) = Some [1]
   \<and> length [1 :: nat] \<le> 5"
proof -
  let ?w = "the (run (world_init Map.empty) [SearchKey (Some ''a''), SearchResponse 0 [1 :: nat]])"
  have r: "run (world_init Map.empty) [SearchKey (Some ''a''), SearchResponse 0 [1 :: nat]] = Some ?w"
    by (simp add: world_init_def handler_simps searchProduct_def drop_req_def search_cb_def limit_results_def)
  have rw: "reach ?w" by (rule reach_run[OF reach.init r])
  have sr: "searchResults (hdr ?w) = Some [1]"
    by (simp add: world_init_def handler_simps searchProduct_def drop_req_def search_cb_def
        limit_results_def header_init_def)
  from reach_results_bounded[OF rw sr] rw sr show ?thesis by simp
qed

text \<open>C13: in every reachable state the shop service has been asked to fetch the cart at most once.\<close>

theorem reach_cart_fetch_once: "reach w \<Longrightarrow> cartFetches w \<le> 1"
  by (auto dest: reach_header_inv simp: header_inv_def)

theorem reach_cart_fetch_once_witness:
  "reach (the (run (world_init [''customer'' \<mapsto> ''{}'']) [NgOnInit :: nat event]))
   \<and> cartFetches (the (run (world_init [''customer'' \<mapsto> ''{}'']) [NgOnInit :: nat event])) \<le> 1"
proof -
  let ?w = "the (run (world_init [''customer'' \<mapsto> ''{}'']) [NgOnInit :: nat event])"
  have r: "run (world_init [''customer'' \<mapsto> ''{}'']) [NgOnInit :: nat event] = Some ?w"
    by (simp add: world_init_def)
  have rw: "reach ?w" by (rule reach_run[OF reach.init r])
  from reach_cart_fetch_once[OF rw] rw show ?thesis by simp
qed

lemma on_router_event_cart:
  "on_router_event u (w\<lparr>hdr := cart_length_cb xs (hdr w)\<rparr>) =
   (on_router_event u w)\<lparr>hdr := cart_length_cb xs (hdr (on_router_event u w))\<rparr>"
  by (simp add: on_router_event_def handler_simps cart_length_cb_def
      split: option.splits sum.splits)

lemma on_router_event_subs:
  "routerSub (on_router_event u w) = routerSub w \<and> cartSub (on_router_event u w) = cartSub w"
  using on_router_event_cases[of u w] by (auto simp: handler_simps)

text \<open>C17: a router event and a cart emission commute: the two asynchronous sources write disjoint fields, so their order does not matter.\<close>

theorem router_cart_commute:
  "run w [RouterEvent u, CartLength xs] = run w [CartLength xs, RouterEvent u]"
  by (simp add: on_router_event_cart on_router_event_subs handler_simps)

text \<open>C18: no event of the component adds a storage entry: it only reads the markers and, on logout, removes them.\<close>

theorem component_never_adds_keys:
  assumes "step w e = Some w'" and "component_event e"
  shows "dom (store w') \<subseteq> dom (store w)"
proof (cases e)
  case (RouterEvent u)
  have "store (on_router_event u w) = store w"
    using on_router_event_cases[of u w] by (auto simp: handler_simps)
  with assms RouterEvent show ?thesis by (auto split: if_splits)
next
  case NgOnInit
  with assms ngOnInit_frame[of w] show ?thesis by (auto split: if_splits)
qed (use assms in \<open>auto simp: handler_simps drop_req_def cart_length_cb_def emit_cart_length_def
    onCustomerLogout_def onSellerLogout_def onSearch_def searchProduct_def hideSearch_def
    redirectToDetails_def removeItem_def Let_def split: option.splits if_splits\<close>)

theorem component_never_adds_keys_witness:
  "step (world_init [''customer'' \<mapsto> ''x''] :: nat world) CustomerLogout
     = Some (onCustomerLogout (world_init [''customer'' \<mapsto> ''x'']))
   \<and> component_event (CustomerLogout :: nat event)
   \<and> dom (store (onCustomerLogout (world_init [''customer'' \<mapsto> ''x''] :: nat world)))
       \<subseteq> dom (store (world_init [''customer'' \<mapsto> ''x''] :: nat world))"
proof -
  have s: "step (world_init [''customer'' \<mapsto> ''x''] :: nat world) CustomerLogout
     = Some (onCustomerLogout (world_init [''customer'' \<mapsto> ''x'']))" by simp
  have c: "component_event (CustomerLogout :: nat event)" by simp
  from component_never_adds_keys[OF s c] s c show ?thesis by simp
qed

lemma step_frame:
  assumes "step w e = Some w'"
  shows "isHidden (hdr w') = isHidden (hdr w)
    \<and> (\<exists>ns. navigations w' = navigations w @ ns \<and> list_all route_ok ns)"
proof (cases e)
  case (RouterEvent u)
  with assms on_router_event_cases[of u w] show ?thesis
    by (auto simp: handler_simps split: if_splits)
next
  case NgOnInit
  have "isHidden (hdr (ngOnInit w)) = isHidden (hdr w) \<and> navigations (ngOnInit w) = navigations w"
    by (auto simp: ngOnInit_def Let_def handler_simps split: sum.splits option.splits)
  with assms NgOnInit show ?thesis by (auto split: if_splits)
next
  case (UserResponse i name)
  with assms show ?thesis
    by (cases "pending w ! i") (auto simp: handler_simps drop_req_def seller_user_cb_def
        customer_user_cb_def split: if_splits)
qed (use assms in \<open>auto simp: handler_simps drop_req_def search_cb_def cart_length_cb_def
    emit_cart_length_def onCustomerLogout_def onSellerLogout_def onSearch_def searchProduct_def
    hideSearch_def redirectToDetails_def route_ok_def Let_def split: if_splits option.splits\<close>)

text \<open>C21: every navigation the component has asked for is one of the three routes of the spec.\<close>

theorem reach_navigation_routes: "reach w \<Longrightarrow> list_all route_ok (navigations w)"
proof (induction rule: reach.induct)
  case (init st) show ?case by (simp add: world_init_def)
next
  case (step w e w')
  from step_frame[OF step.hyps(2)] step.IH show ?case by auto
qed

theorem reach_navigation_routes_witness:
  "reach (the (run (world_init Map.empty) [Search ''shoes'', RedirectToDetails ''42'', SellerLogout :: nat event]))
   \<and> navigations (the (run (world_init Map.empty) [Search ''shoes'', RedirectToDetails ''42'', SellerLogout :: nat event]))
     = [''/search/shoes'', ''/product-details/42'', ''/'']
   \<and> list_all route_ok [''/search/shoes'', ''/product-details/42'', ''/'']"
proof -
  let ?es = "[Search ''shoes'', RedirectToDetails ''42'', SellerLogout :: nat event]"
  let ?w = "the (run (world_init Map.empty) ?es)"
  have r: "run (world_init Map.empty) ?es = Some ?w"
    by (simp add: handler_simps onSearch_def redirectToDetails_def onSellerLogout_def)
  have rw: "reach ?w" by (rule reach_run[OF reach.init r])
  have n: "navigations ?w = [''/search/shoes'', ''/product-details/42'', ''/'']"
    by (simp add: handler_simps onSearch_def redirectToDetails_def onSellerLogout_def world_init_def)
  from reach_navigation_routes[OF rw] rw n show ?thesis by simp
qed

lemma user_cb_cart: "user_cb r name (cart_length_cb xs h) = cart_length_cb xs (user_cb r name h)"
  by (cases r) (simp_all add: seller_user_cb_def customer_user_cb_def cart_length_cb_def)

lemma search_cb_cart: "search_cb res (cart_length_cb xs h) = cart_length_cb xs (search_cb res h)"
  by (simp add: search_cb_def cart_length_cb_def)

lemma run_answers_same:
  "pending w = replicate (Suc n) r \<Longrightarrow> is_user_req r \<Longrightarrow>
   run w (map (answer name res) (pending w)) = Some (upd_hdr (user_cb r name) (w\<lparr>pending := []\<rparr>))"
proof (induction n arbitrary: w)
  case 0 then show ?case by (simp add: answer_def handler_simps drop_req_def)
next
  case (Suc n)
  let ?w1 = "upd_hdr (user_cb r name) (drop_req 0 w)"
  have s: "step w (answer name res r) = Some ?w1" using Suc.prems by (simp add: answer_def)
  have p: "pending ?w1 = replicate (Suc n) r" using Suc.prems by (simp add: handler_simps drop_req_def)
  have "run ?w1 (map (answer name res) (pending ?w1)) = Some (upd_hdr (user_cb r name) (?w1\<lparr>pending := []\<rparr>))"
    by (rule Suc.IH[OF p Suc.prems(2)])
  moreover have "upd_hdr (user_cb r name) (?w1\<lparr>pending := []\<rparr>) = upd_hdr (user_cb r name) (w\<lparr>pending := []\<rparr>)"
    by (cases r) (simp_all add: handler_simps drop_req_def seller_user_cb_def customer_user_cb_def)
  ultimately show ?case using s Suc.prems(1) p by simp
qed

text \<open>
  C25: an identity or search answer and a cart emission commute: the answers write
  \<open>userName\<close>, \<open>menuType\<close> or \<open>searchResults\<close>, the emission only \<open>cartCount\<close>.
\<close>

theorem answer_cart_commute:
  "run w [UserResponse i name, CartLength xs] = run w [CartLength xs, UserResponse i name]
   \<and> run w [SearchResponse i res, CartLength xs] = run w [CartLength xs, SearchResponse i res]"
  by (simp add: handler_simps drop_req_def user_cb_cart search_cb_cart)

lemma on_router_event_growth:
  "length (pending (on_router_event u w)) \<le> Suc (length (pending w))
   \<and> length (errors (on_router_event u w)) \<le> Suc (length (errors w))
   \<and> navigations (on_router_event u w) = navigations w"
  using on_router_event_cases[of u w] by (auto simp: handler_simps)

lemma ngOnInit_growth:
  "pending (ngOnInit w) = pending w
   \<and> length (errors (ngOnInit w)) \<le> Suc (length (errors w))
   \<and> navigations (ngOnInit w) = navigations w"
  by (simp add: ngOnInit_def handler_simps Let_def split: sum.splits option.splits)

lemma step_growth:
  assumes "step w e = Some w'"
  shows "length (pending w') \<le> Suc (length (pending w))
    \<and> length (errors w') \<le> Suc (length (errors w))
    \<and> length (navigations w') \<le> Suc (length (navigations w))"
  using assms
proof (cases e)
  case NgOnInit with assms ngOnInit_growth[of w] show ?thesis by (auto split: if_splits)
next
  case (RouterEvent u) with assms on_router_event_growth[of u w] show ?thesis by auto
qed (auto simp: handler_simps drop_req_def onCustomerLogout_def emit_cart_length_def
      onSellerLogout_def onSearch_def searchProduct_def hideSearch_def redirectToDetails_def
      Let_def split: if_splits option.splits)

text \<open>
  C28: the component's resources grow by at most one per event: every event adds at most
  one pending request, one reported exception and one navigation, so a run of \<open>n\<close>
  events adds at most \<open>n\<close> of each (the keystroke search issues one request per key,
  never more).
\<close>

theorem run_growth:
  "run w es = Some w' \<Longrightarrow>
     length (pending w') \<le> length (pending w) + length es
   \<and> length (errors w') \<le> length (errors w) + length es
   \<and> length (navigations w') \<le> length (navigations w) + length es"
proof (induction es arbitrary: w)
  case Nil then show ?case by simp
next
  case (Cons e es)
  then obtain w1 where s: "step w e = Some w1" and r: "run w1 es = Some w'"
    by (auto split: option.splits)
  from step_growth[OF s] Cons.IH[OF r] show ?case by simp
qed

theorem run_growth_witness:
  "length (pending (the (run (world_init Map.empty) [NgOnInit, SearchKey (Some ''a''), Search ''a'' :: nat event]))) \<le> 3
   \<and> length (navigations (the (run (world_init Map.empty) [NgOnInit, SearchKey (Some ''a''), Search ''a'' :: nat event]))) \<le> 3"
proof -
  let ?r = "run (world_init Map.empty) [NgOnInit, SearchKey (Some ''a''), Search ''a'' :: nat event]"
  have "?r \<noteq> None" by code_simp
  then have "?r = Some (the ?r)" by auto
  from run_growth[OF this] show ?thesis by (simp add: world_init_def)
qed

lemma cartCount_user_cb [simp]: "cartCount (user_cb r n h) = cartCount h"
  by (cases r) (simp_all add: seller_user_cb_def customer_user_cb_def)

lemma step_cart:
  assumes "reach w" and "cartSub w" and "step w e = Some w'"
  shows "cartSub w' \<and> cartCount (hdr w') =
           (case cart_event e of None \<Rightarrow> cartCount (hdr w) | Some n \<Rightarrow> js_number n)"
proof -
  have "routerSub w" using reach_header_inv[OF assms(1)] assms(2) by (simp add: header_inv_def)
  then show ?thesis using assms(2,3)
  proof (cases e)
    case (RouterEvent u) with assms(2,3) show ?thesis
      using on_router_event_cases[of u w] by (auto simp: handler_simps)
  qed (auto simp: handler_simps drop_req_def onCustomerLogout_def emit_cart_length_def
      onSellerLogout_def onSearch_def searchProduct_def hideSearch_def redirectToDetails_def
      cart_length_cb_def search_cb_def cartCount_user_cb Let_def split: if_splits option.splits)
qed

lemma run_cart:
  "reach w \<Longrightarrow> cartSub w \<Longrightarrow> run w es = Some w' \<Longrightarrow>
   reach w' \<and> cartSub w' \<and> cartCount (hdr w') = cart_spec (cartCount (hdr w)) es"
proof (induction es arbitrary: w)
  case Nil then show ?case by (simp add: cart_spec_def)
next
  case (Cons e es)
  then obtain w1 where s: "step w e = Some w1" and r: "run w1 es = Some w'"
    by (auto split: option.splits)
  have c: "cartSub w1 \<and> cartCount (hdr w1) =
      (case cart_event e of None \<Rightarrow> cartCount (hdr w) | Some n \<Rightarrow> js_number n)"
    by (rule step_cart[OF Cons.prems(1,2) s])
  have "reach w1" by (rule reach.step[OF Cons.prems(1) s])
  with Cons.IH[OF _ _ r] c show ?case
    by (auto simp: cart_spec_def split: option.splits)
qed

text \<open>
  C29: the cart count refines the spec's last-emission rule: from any reachable state in
  which the cart subscription is made, after any run the count is the length of the last
  list emitted in it, or unchanged if there was none, whatever the interleaving with
  router events, answers, storage writes and template actions.
\<close>

theorem cart_count_refines:
  assumes "reach w" and "cartSub w" and "run w es = Some w'"
  shows "cartCount (hdr w') = cart_spec (cartCount (hdr w)) es"
  using run_cart[OF assms] by simp

theorem cart_count_refines_witness:
  "cartCount (hdr (the (run (the (run (world_init Map.empty) [NgOnInit :: nat event]))
      [CartLength [1, 2], RouterEvent (Some ''/''), CustomerLogout, Search ''x'', CartLength [5]])))
   = js_number 1"
proof -
  let ?w = "the (run (world_init Map.empty) [NgOnInit :: nat event])"
  let ?es = "[CartLength [1, 2], RouterEvent (Some ''/''), CustomerLogout, Search ''x'', CartLength [5 :: nat]]"
  have "run (world_init Map.empty) [NgOnInit :: nat event] \<noteq> None" by code_simp
  then have r0: "run (world_init Map.empty) [NgOnInit :: nat event] = Some ?w" by auto
  have rw: "reach ?w" by (rule reach_run[OF reach.init r0])
  have cs: "cartSub ?w" by code_simp
  have "run ?w ?es \<noteq> None" by code_simp
  then have "run ?w ?es = Some (the (run ?w ?es))" by auto
  from cart_count_refines[OF rw cs this] show ?thesis by (simp add: cart_spec_def)
qed

text \<open>
  C33: a failed search is not handled: the request issued by a keystroke, answered by a
  failure, leaves the header exactly as it was (old results stay shown) and only
  reports the exception.
\<close>

theorem failed_search_unhandled:
  "run w [SearchKey (Some q), ResponseError (length (pending w))] =
     Some (w\<lparr>errors := errors w @ [HttpFailure]\<rparr>)"
  by (simp add: searchProduct_def handler_simps drop_req_def del_at_def)

lemma on_router_event_markers:
  "list_all marker_ok (pending w) \<Longrightarrow> list_all marker_ok (pending (on_router_event u w))"
  by (auto simp: on_router_event_def handler_simps split: option.splits sum.splits)

lemma step_markers:
  assumes "list_all marker_ok (pending w)" and "step w e = Some w'"
  shows "list_all marker_ok (pending w')"
  using assms
proof (cases e)
  case NgOnInit with assms show ?thesis
    by (auto simp: ngOnInit_def handler_simps Let_def split: if_splits sum.splits option.splits)
next
  case (RouterEvent u) with assms show ?thesis by (auto simp: on_router_event_markers)
qed (auto simp: handler_simps drop_req_def list_all_del_at onCustomerLogout_def emit_cart_length_def
      onSellerLogout_def onSearch_def searchProduct_def hideSearch_def redirectToDetails_def
      Let_def split: if_splits option.splits)

text \<open>
  C34: in every reachable state, each pending identity lookup carries a truthy marker:
  the services are never asked about \<open>null\<close>, \<open>false\<close>, \<open>0\<close> or an empty string,
  whatever the storage held or how it changed.
\<close>

theorem reach_markers_truthy: "reach w \<Longrightarrow> list_all marker_ok (pending w)"
  by (induction rule: reach.induct) (auto simp: world_init_def intro: step_markers)

theorem reach_markers_truthy_witness:
  "reach (the (run (world_init [''admin'' \<mapsto> ''{\"id\":7}'']) [NgOnInit, RouterEvent (Some ''/seller-products'') :: nat event]))
   \<and> list_all marker_ok (pending (the (run (world_init [''admin'' \<mapsto> ''{\"id\":7}''])
        [NgOnInit, RouterEvent (Some ''/seller-products'') :: nat event])))"
proof -
  let ?r = "run (world_init [''admin'' \<mapsto> ''{\"id\":7}'']) [NgOnInit, RouterEvent (Some ''/seller-products'') :: nat event]"
  have "?r \<noteq> None" by code_simp
  then have "?r = Some (the ?r)" by auto
  then have "reach (the ?r)" by (rule reach_run[OF reach.init])
  with reach_markers_truthy[OF this] show ?thesis by simp
qed

end
