(* ===== verification/JsonPrint.thy ===== *)
theory JsonPrint
  imports Storage
begin

text \<open>
  \<open>JSON.stringify\<close>, the writer of the values the header reads back from
  \<open>localStorage\<close>: the login pages of the application store the signed-in seller and
  customer, and the cart pages the local cart, as JSON text. The printer follows the
  ECMAScript algorithms: a number is written by \<open>Number::toString\<close> (\<open>num_str\<close>: plain
  digits up to 21 integer digits, a decimal point, \<open>0.000ddd\<close> down to \<open>1e-7\<close>, and the
  exponent form \<open>d.ddde+n\<close> beyond), a string by \<open>QuoteJSONString\<close> (\<open>esc_char\<close>: the short
  escapes \<open>\b \t \n \f \r \" \\\<close>, other control characters as \<open>\u00xx\<close> in lower-case
  hex). A number \<open>JNum m e\<close> is printed from its exact value, which is the decimal
  \<open>Number::toString\<close> prints whenever that value is a double whose shortest decimal is
  itself (every integer up to \<open>2 ^ 53\<close>, every decimal of at most 15 significant digits).
  \<open>undefined\<close> prints as \<open>null\<close>, as it does inside arrays; the values stored by the
  application contain none (\<open>json_value\<close>).

  The main result is the round trip: \<open>JSON.parse\<close> reads back \<open>pnum v\<close>, the value with
  each number in the form its printed text is lexed to (\<open>parsed_num\<close>), and \<open>pnum v\<close>
  denotes the same JavaScript value as \<open>v\<close> (\<open>jnorm\<close>, which puts every number in the
  normal form \<open>num_norm\<close>: mantissa without trailing zeros). It goes through the token
  list \<open>toks (pnum v)\<close> that the lexer produces from the printed text and that the
  parser's stack machine reads back.
\<close>

section \<open>Printer\<close>

definition digit_char :: "nat \<Rightarrow> char" where
  "digit_char d = char_of (48 + d)"

fun nat_str :: "nat \<Rightarrow> string" where
  "nat_str n = (if n < 10 then [digit_char n] else nat_str (n div 10) @ [digit_char (n mod 10)])"

fun strip_zeros :: "nat \<Rightarrow> nat \<times> nat" where
  "strip_zeros a =
     (if a \<noteq> 0 \<and> a mod 10 = 0 then (case strip_zeros (a div 10) of (s, z) \<Rightarrow> (s, Suc z))
      else (a, 0))"

definition sign_char :: "int \<Rightarrow> char" where
  "sign_char y = (if y < 0 then CHR ''-'' else CHR ''+'')"

definition body_str :: "nat \<Rightarrow> int \<Rightarrow> string" where
  "body_str s x =
     (let ds = nat_str s; k = int (length ds); n = x + k in
      if k \<le> n \<and> n \<le> 21 then ds @ replicate (nat (n - k)) CHR ''0''
      else if 0 < n \<and> n \<le> 21 then take (nat n) ds @ CHR ''.'' # drop (nat n) ds
      else if -6 < n \<and> n \<le> 0 then CHR ''0'' # CHR ''.'' # replicate (nat (- n)) CHR ''0'' @ ds
      else (if k = 1 then ds else hd ds # CHR ''.'' # tl ds)
           @ CHR ''e'' # sign_char (n - 1) # nat_str (nat \<bar>n - 1\<bar>))"

definition body_val :: "nat \<Rightarrow> int \<Rightarrow> int \<times> int" where
  "body_val s x =
     (let k = int (length (nat_str s)); n = x + k in
      if k \<le> n \<and> n \<le> 21 then (int s * 10 ^ nat x, 0) else (int s, x))"

definition num_str :: "int \<Rightarrow> int \<Rightarrow> string" where
  "num_str m e =
     (if m = 0 then ''0''
      else case strip_zeros (nat \<bar>m\<bar>) of (s, z) \<Rightarrow>
        (if m < 0 then ''-'' else []) @ body_str s (e + int z))"

definition parsed_num :: "int \<Rightarrow> int \<Rightarrow> int \<times> int" where
  "parsed_num m e =
     (if m = 0 then (0, 0)
      else case strip_zeros (nat \<bar>m\<bar>) of (s, z) \<Rightarrow>
        (case body_val s (e + int z) of (a, b) \<Rightarrow> (sgn m * a, b)))"

definition num_norm :: "int \<Rightarrow> int \<Rightarrow> int \<times> int" where
  "num_norm m e =
     (if m = 0 then (0, 0)
      else case strip_zeros (nat \<bar>m\<bar>) of (s, z) \<Rightarrow> (sgn m * int s, e + int z))"

definition hex_char :: "nat \<Rightarrow> char" where
  "hex_char d = char_of (if d < 10 then 48 + d else 87 + d)"

definition esc_char :: "char \<Rightarrow> string" where
  "esc_char c =
     (if c = CHR 0x22 then [CHR 0x5C, CHR 0x22]
      else if c = CHR 0x5C then [CHR 0x5C, CHR 0x5C]
      else if c = CHR 0x08 then [CHR 0x5C, CHR ''b'']
      else if c = CHR 0x09 then [CHR 0x5C, CHR ''t'']
      else if c = CHR 0x0A then [CHR 0x5C, CHR ''n'']
      else if c = CHR 0x0C then [CHR 0x5C, CHR ''f'']
      else if c = CHR 0x0D then [CHR 0x5C, CHR ''r'']
      else if (of_char c :: nat) < 32 then
        [CHR 0x5C, CHR ''u'', CHR ''0'', CHR ''0'', hex_char (of_char c div 16), hex_char (of_char c mod 16)]
      else [c])"

definition quote :: "string \<Rightarrow> string" where
  "quote s = CHR 0x22 # concat (map esc_char s) @ [CHR 0x22]"

fun json_print :: "jsval \<Rightarrow> string" where
  "json_print JUndef = ''null''"
| "json_print JNull = ''null''"
| "json_print (JBool b) = (if b then ''true'' else ''false'')"
| "json_print (JNum m e) = num_str m e"
| "json_print (JStr s) = quote s"
| "json_print (JArr []) = ''[]''"
| "json_print (JArr (x # xs)) =
     CHR ''['' # json_print x @ concat (map (\<lambda>y. CHR '','' # json_print y) xs) @ '']''"
| "json_print (JObj []) = ''{}''"
| "json_print (JObj ((k, v) # ms)) =
     CHR ''{'' # quote k @ CHR '':'' # json_print v
       @ concat (map (\<lambda>(k', v'). CHR '','' # quote k' @ CHR '':'' # json_print v') ms) @ ''}''"

section \<open>Values up to number representation\<close>

fun pnum :: "jsval \<Rightarrow> jsval" where
  "pnum (JNum m e) = (case parsed_num m e of (a, b) \<Rightarrow> JNum a b)"
| "pnum (JArr xs) = JArr (map pnum xs)"
| "pnum (JObj ms) = JObj (map (\<lambda>(k, v). (k, pnum v)) ms)"
| "pnum v = v"

fun jnorm :: "jsval \<Rightarrow> jsval" where
  "jnorm (JNum m e) = (case num_norm m e of (a, b) \<Rightarrow> JNum a b)"
| "jnorm (JArr xs) = JArr (map jnorm xs)"
| "jnorm (JObj ms) = JObj (map (\<lambda>(k, v). (k, jnorm v)) ms)"
| "jnorm v = v"

section \<open>Token image of a value\<close>

text \<open>
  The tokens of a printed value, the scanner of an unsigned number, the tail condition
  under which a value can be followed by more text without changing its lexing (no
  digit, point or exponent may follow a number), the append of tokens to a lexer result,
  and the JSON values (no \<open>undefined\<close> anywhere).
\<close>

fun toks :: "jsval \<Rightarrow> token list" where
  "toks JUndef = [TNull]"
| "toks JNull = [TNull]"
| "toks (JBool b) = [if b then TTrue else TFalse]"
| "toks (JNum m e) = [TNum m e]"
| "toks (JStr s) = [TStr s]"
| "toks (JArr []) = [TLBrack, TRBrack]"
| "toks (JArr (x # xs)) = TLBrack # toks x @ concat (map (\<lambda>y. TComma # toks y) xs) @ [TRBrack]"
| "toks (JObj []) = [TLBrace, TRBrace]"
| "toks (JObj ((k, v) # ms)) =
     TLBrace # TStr k # TColon # toks v
       @ concat (map (\<lambda>(k', v'). TComma # TStr k' # TColon # toks v') ms) @ [TRBrace]"

definition lex_unum :: "string \<Rightarrow> (int \<times> int \<times> string) option" where
  "lex_unum t =
     (case lex_int t of (ip, s2) \<Rightarrow>
        (if ip = [] then None
         else case lex_frac s2 of
           None \<Rightarrow> None
         | Some (fp, s3) \<Rightarrow>
             (case lex_exp s3 of
                None \<Rightarrow> None
              | Some (ex, s4) \<Rightarrow> Some (int (digits_val (ip @ fp)), ex - int (length fp), s4))))"

definition no_digit_start :: "string \<Rightarrow> bool" where
  "no_digit_start r = (case r of [] \<Rightarrow> True | c # _ \<Rightarrow> \<not> is_digit c)"

definition num_stop :: "string \<Rightarrow> bool" where
  "num_stop r = (case r of [] \<Rightarrow> True
     | c # _ \<Rightarrow> \<not> is_digit c \<and> c \<noteq> CHR ''.'' \<and> c \<noteq> CHR ''e'' \<and> c \<noteq> CHR ''E'')"

definition tapp :: "token list \<Rightarrow> js_error + token list \<Rightarrow> js_error + token list" where
  "tapp ts r = (case r of Inl e \<Rightarrow> Inl e | Inr us \<Rightarrow> Inr (ts @ us))"

fun json_value :: "jsval \<Rightarrow> bool" where
  "json_value JUndef = False"
| "json_value (JArr xs) = list_all json_value xs"
| "json_value (JObj ms) = list_all (\<lambda>(k, v). json_value v) ms"
| "json_value _ = True"

declare nat_str.simps [simp del] strip_zeros.simps [simp del]

section \<open>Numbers\<close>

text \<open>
  The lexer reads a printed number back in each of the forms of \<open>Number::toString\<close>,
  as a token whose value is the printed value.
\<close>

lemma lex_number_unum:
  "lex_number t = (case num_sign t of (sg, s1) \<Rightarrow>
     (case lex_unum s1 of None \<Rightarrow> None | Some (a, b, r) \<Rightarrow> Some (TNum (sg * a) b, r)))"
  by (simp add: lex_number_def lex_unum_def split: prod.splits option.splits)

lemma digits_val_append: "digits_val (xs @ ys) = digits_val xs * 10 ^ length ys + digits_val ys"
proof (induction ys rule: rev_induct)
  case Nil then show ?case by (simp add: digits_val_def)
next
  case (snoc y ys)
  then show ?case by (simp add: digits_val_def algebra_simps)
qed

lemma digits_val_zeros [simp]: "digits_val (replicate j CHR ''0'') = 0"
proof (induction j)
  case 0 then show ?case by (simp add: digits_val_def)
next
  case (Suc j)
  have "replicate (Suc j) CHR ''0'' = replicate j CHR ''0'' @ [CHR ''0'']"
    by (simp add: replicate_append_same)
  with Suc show ?case by (simp add: digits_val_append) (simp add: digits_val_def)
qed

lemma of_char_digit_char: "d < 10 \<Longrightarrow> (of_char (digit_char d) :: nat) = 48 + d"
  by (simp add: digit_char_def)

lemma is_digit_digit_char: "d < 10 \<Longrightarrow> is_digit (digit_char d)"
  by (simp add: is_digit_def of_char_digit_char)

lemma nat_str_digits: "list_all is_digit (nat_str n)"
proof (induction n rule: nat_str.induct)
  case (1 n)
  show ?case
  proof (cases "n < 10")
    case True then show ?thesis by (subst nat_str.simps) (simp add: is_digit_digit_char)
  next
    case False with "1.IH" show ?thesis by (subst nat_str.simps) (simp add: is_digit_digit_char)
  qed
qed

lemma nat_str_not_Nil [simp]: "nat_str n \<noteq> []"
  by (subst nat_str.simps) simp

lemma digits_val_snoc: "digits_val (xs @ [d]) = 10 * digits_val xs + (of_char d - 48)"
  by (simp add: digits_val_def)

lemma digits_val_nat_str [simp]: "digits_val (nat_str n) = n"
proof (induction n rule: nat_str.induct)
  case (1 n)
  show ?case
  proof (cases "n < 10")
    case True then show ?thesis
      by (subst nat_str.simps) (simp add: digits_val_def of_char_digit_char)
  next
    case False
    with "1.IH" show ?thesis
      by (subst nat_str.simps) (simp add: digits_val_snoc of_char_digit_char)
  qed
qed

lemma nat_str_hd: "0 < n \<Longrightarrow> hd (nat_str n) \<noteq> CHR ''0''"
proof (induction n rule: nat_str.induct)
  case (1 n)
  show ?case
  proof (cases "n < 10")
    case True
    with "1.prems" have "(of_char (digit_char n) :: nat) \<noteq> 48" by (simp add: of_char_digit_char)
    with True show ?thesis by (subst nat_str.simps) auto
  next
    case False
    with "1.IH" show ?thesis by (subst nat_str.simps) simp
  qed
qed

lemma nonspecial_chars [simp]:
  "\<not> is_digit CHR ''-''" "\<not> is_digit CHR ''+''" "\<not> is_digit CHR ''e''" "\<not> is_digit CHR ''.''"
  "is_digit CHR ''0''"
  by (simp_all add: is_digit_def)

lemma digit_not_special:
  "is_digit c \<Longrightarrow> c \<noteq> CHR ''-'' \<and> c \<noteq> CHR ''+'' \<and> c \<noteq> CHR ''.'' \<and> c \<noteq> CHR ''e'' \<and> c \<noteq> CHR ''E''"
  by (auto simp: is_digit_def)

lemma no_digit_start_num_stop: "num_stop r \<Longrightarrow> no_digit_start r"
  by (cases r) (simp_all add: num_stop_def no_digit_start_def)

lemma takeWhile_digits: "list_all is_digit xs \<Longrightarrow> no_digit_start r \<Longrightarrow> takeWhile is_digit (xs @ r) = xs"
  by (induction xs) (auto simp: no_digit_start_def split: list.splits)

lemma dropWhile_digits: "list_all is_digit xs \<Longrightarrow> no_digit_start r \<Longrightarrow> dropWhile is_digit (xs @ r) = r"
  by (induction xs) (auto simp: no_digit_start_def split: list.splits)

lemma lex_int_digits:
  assumes "list_all is_digit xs" "xs \<noteq> []" "hd xs \<noteq> CHR ''0''" "no_digit_start r"
  shows "lex_int (xs @ r) = (xs, r)"
proof -
  obtain c cs where xs: "xs = c # cs" using assms(2) by (cases xs) auto
  with assms show ?thesis by (simp add: takeWhile_digits dropWhile_digits)
qed

lemma lex_frac_dot:
  assumes "list_all is_digit xs" "xs \<noteq> []" "no_digit_start r"
  shows "lex_frac (CHR ''.'' # xs @ r) = Some (xs, r)"
  using assms by (simp add: takeWhile_digits dropWhile_digits)

lemma lex_frac_stop: "num_stop r \<Longrightarrow> lex_frac r = Some ([], r)"
  by (cases r) (simp_all add: num_stop_def)

lemma lex_exp_stop: "num_stop r \<Longrightarrow> lex_exp r = Some (0, r)"
  by (cases r) (simp_all add: num_stop_def)

lemma lex_exp_e:
  assumes "no_digit_start r"
  shows "lex_exp (CHR ''e'' # sign_char y # nat_str (nat \<bar>y\<bar>) @ r) = Some (y, r)"
  using assms by (simp add: sign_char_def takeWhile_digits dropWhile_digits nat_str_digits Let_def)

lemma no_digit_start_special [simp]:
  "no_digit_start (CHR ''.'' # r)" "no_digit_start (CHR ''e'' # r)"
  by (simp_all add: no_digit_start_def)

lemma list_all_digit_zeros [simp]: "list_all is_digit (replicate j CHR ''0'')"
  by (simp add: list_all_iff)

lemma unum_plain:
  assumes "list_all is_digit ds" "ds \<noteq> []" "hd ds \<noteq> CHR ''0''" "num_stop r"
  shows "lex_unum (ds @ replicate j CHR ''0'' @ r) = Some (int (digits_val ds) * 10 ^ j, 0, r)"
proof -
  have "lex_int ((ds @ replicate j CHR ''0'') @ r) = (ds @ replicate j CHR ''0'', r)"
    using assms by (intro lex_int_digits) (simp_all add: no_digit_start_num_stop)
  with assms(2,4) show ?thesis
    by (simp add: lex_unum_def lex_frac_stop lex_exp_stop digits_val_append)
qed

lemma unum_point:
  assumes "list_all is_digit ds" "0 < i" "i < length ds" "hd ds \<noteq> CHR ''0''" "num_stop r"
  shows "lex_unum (take i ds @ CHR ''.'' # drop i ds @ r) =
    Some (int (digits_val ds), - int (length ds - i), r)"
proof -
  have d: "list_all is_digit (take i ds)" "list_all is_digit (drop i ds)"
    using assms(1) by (auto simp: list_all_iff dest: in_set_takeD in_set_dropD)
  have "take i ds \<noteq> []" "hd (take i ds) = hd ds" using assms(2,3) by (auto simp: hd_take)
  with d assms have "lex_int (take i ds @ CHR ''.'' # drop i ds @ r) = (take i ds, CHR ''.'' # drop i ds @ r)"
    by (intro lex_int_digits) simp_all
  moreover have "lex_frac (CHR ''.'' # drop i ds @ r) = Some (drop i ds, r)"
    using d assms by (intro lex_frac_dot) (simp_all add: no_digit_start_num_stop)
  moreover have "take i ds \<noteq> []" using assms(2,3) by auto
  ultimately show ?thesis using assms(3,5)
    by (simp add: lex_unum_def lex_exp_stop del: lex_frac.simps lex_int.simps)
qed

lemma digits_val_zero_prefix: "digits_val (CHR ''0'' # replicate j CHR ''0'' @ ds) = digits_val ds"
proof -
  have "CHR ''0'' # replicate j CHR ''0'' @ ds = replicate (Suc j) CHR ''0'' @ ds" by simp
  then show ?thesis by (simp only: digits_val_append digits_val_zeros)
qed

lemma unum_small:
  assumes "list_all is_digit ds" "ds \<noteq> []" "num_stop r"
  shows "lex_unum (CHR ''0'' # CHR ''.'' # replicate j CHR ''0'' @ ds @ r) =
    Some (int (digits_val ds), - int (j + length ds), r)"
proof -
  have "lex_frac (CHR ''.'' # (replicate j CHR ''0'' @ ds) @ r) = Some (replicate j CHR ''0'' @ ds, r)"
    using assms by (intro lex_frac_dot) (simp_all add: no_digit_start_num_stop)
  then show ?thesis using assms(3)
    by (simp add: lex_unum_def lex_exp_stop digits_val_zero_prefix del: lex_frac.simps)
qed

lemma unum_exp1:
  assumes "is_digit d" "d \<noteq> CHR ''0''" "no_digit_start r"
  shows "lex_unum (d # CHR ''e'' # sign_char y # nat_str (nat \<bar>y\<bar>) @ r) =
    Some (int (digits_val [d]), y, r)"
proof -
  have "lex_int ([d] @ CHR ''e'' # sign_char y # nat_str (nat \<bar>y\<bar>) @ r) =
      ([d], CHR ''e'' # sign_char y # nat_str (nat \<bar>y\<bar>) @ r)"
    using assms by (intro lex_int_digits) simp_all
  then show ?thesis using assms(3)
    by (simp add: lex_unum_def lex_exp_e del: lex_int.simps lex_exp.simps)
qed

lemma unum_expk:
  assumes "list_all is_digit (d # ds)" "ds \<noteq> []" "d \<noteq> CHR ''0''" "no_digit_start r"
  shows "lex_unum (d # CHR ''.'' # ds @ CHR ''e'' # sign_char y # nat_str (nat \<bar>y\<bar>) @ r) =
    Some (int (digits_val (d # ds)), y - int (length ds), r)"
proof -
  have "lex_int ([d] @ CHR ''.'' # ds @ CHR ''e'' # sign_char y # nat_str (nat \<bar>y\<bar>) @ r) =
      ([d], CHR ''.'' # ds @ CHR ''e'' # sign_char y # nat_str (nat \<bar>y\<bar>) @ r)"
    using assms by (intro lex_int_digits) simp_all
  moreover have "lex_frac (CHR ''.'' # ds @ CHR ''e'' # sign_char y # nat_str (nat \<bar>y\<bar>) @ r) =
      Some (ds, CHR ''e'' # sign_char y # nat_str (nat \<bar>y\<bar>) @ r)"
    using assms by (intro lex_frac_dot) simp_all
  ultimately show ?thesis using assms(4)
    by (simp add: lex_unum_def lex_exp_e del: lex_int.simps lex_frac.simps lex_exp.simps)
qed

lemma lex_unum_body:
  assumes "0 < s" "num_stop r"
  shows "lex_unum (body_str s x @ r) = Some (fst (body_val s x), snd (body_val s x), r)"
proof -
  let ?ds = "nat_str s"
  let ?k = "int (length ?ds)"
  let ?n = "x + ?k"
  have dg: "list_all is_digit ?ds" "?ds \<noteq> []" "hd ?ds \<noteq> CHR ''0''"
    using assms(1) by (simp_all add: nat_str_digits nat_str_hd)
  have nd: "no_digit_start r" using assms(2) by (rule no_digit_start_num_stop)
  consider (a) "?k \<le> ?n \<and> ?n \<le> 21"
    | (b) "\<not> (?k \<le> ?n \<and> ?n \<le> 21)" "0 < ?n \<and> ?n \<le> 21"
    | (c) "\<not> (?k \<le> ?n \<and> ?n \<le> 21)" "\<not> (0 < ?n \<and> ?n \<le> 21)" "-6 < ?n \<and> ?n \<le> 0"
    | (d) "\<not> (?k \<le> ?n \<and> ?n \<le> 21)" "\<not> (0 < ?n \<and> ?n \<le> 21)" "\<not> (-6 < ?n \<and> ?n \<le> 0)"
    by blast
  then show ?thesis
  proof cases
    case a
    then have "nat (?n - ?k) = nat x" by simp
    with a unum_plain[OF dg assms(2), of "nat x"] show ?thesis
      by (simp add: body_str_def body_val_def Let_def)
  next
    case b
    then have i: "0 < nat ?n" "nat ?n < length ?ds" by auto
    have "- int (length ?ds - nat ?n) = x" using i b by auto
    with b unum_point[OF dg(1) i dg(3) assms(2)] show ?thesis
      by (simp add: body_str_def body_val_def Let_def)
  next
    case c
    have bs: "body_str s x = CHR ''0'' # CHR ''.'' # replicate (nat (- ?n)) CHR ''0'' @ ?ds"
      using c by (simp add: body_str_def Let_def)
    have bv: "body_val s x = (int s, x)" using c by (simp add: body_val_def Let_def)
    have "- int (nat (- ?n) + length ?ds) = x" using c by auto
    with bs bv unum_small[OF dg(1,2) assms(2), of "nat (- ?n)"] show ?thesis by simp
  next
    case d
    have bv: "body_val s x = (int s, x)" using d by (auto simp: body_val_def Let_def)
    show ?thesis
    proof (cases "length ?ds = 1")
      case True
      then obtain c where c: "?ds = [c]" by (cases ?ds) auto
      with dg have cd: "is_digit c" "c \<noteq> CHR ''0''" by simp_all
      have bs: "body_str s x = c # CHR ''e'' # sign_char x # nat_str (nat \<bar>x\<bar>)"
        using d True c by (auto simp: body_str_def Let_def)
      have "digits_val [c] = s" using digits_val_nat_str[of s] c by simp
      with bs bv unum_exp1[OF cd nd, of x] show ?thesis by simp
    next
      case False
      then obtain c cs where c: "?ds = c # cs" "cs \<noteq> []" using dg(2) by (cases ?ds) auto
      with dg have cd: "list_all is_digit (c # cs)" "c \<noteq> CHR ''0''" by simp_all
      have bs: "body_str s x = c # CHR ''.'' # cs @ CHR ''e'' # sign_char (?n - 1) # nat_str (nat \<bar>?n - 1\<bar>)"
        using d False c by (auto simp: body_str_def Let_def)
      have "digits_val (c # cs) = s" using digits_val_nat_str[of s] c by simp
      moreover have "?n - 1 - int (length cs) = x" using c by simp
      ultimately show ?thesis using bs bv unum_expk[OF cd(1) c(2) cd(2) nd, of "?n - 1"] by simp
    qed
  qed
qed

lemma strip_zeros_spec:
  "0 < a \<Longrightarrow> strip_zeros a = (s, z) \<Longrightarrow> a = s * 10 ^ z \<and> 0 < s \<and> \<not> 10 dvd s"
proof (induction a arbitrary: s z rule: strip_zeros.induct)
  case (1 a)
  show ?case
  proof (cases "a mod 10 = 0")
    case True
    obtain s' z' where sz: "strip_zeros (a div 10) = (s', z')" by fastforce
    have "0 < a div 10" using True "1.prems"(1) by (auto simp: mod_eq_0_iff_dvd elim!: dvdE)
    from "1.IH"[OF _ this sz] True "1.prems" sz have "a div 10 = s' * 10 ^ z' \<and> 0 < s' \<and> \<not> 10 dvd s'"
      by simp
    moreover have "s = s'" "z = Suc z'" using "1.prems" True sz by (subst (asm) strip_zeros.simps; simp)+
    ultimately show ?thesis using True by (metis mult.assoc mult.commute div_mult_mod_eq add_0_right power_Suc)
  next
    case False
    then show ?thesis using "1.prems" by (subst (asm) strip_zeros.simps) (auto simp: dvd_eq_mod_eq_0)
  qed
qed

lemma strip_zeros_mult: "0 < s \<Longrightarrow> \<not> 10 dvd s \<Longrightarrow> strip_zeros (s * 10 ^ j) = (s, j)"
proof (induction j)
  case 0 then show ?case by (subst strip_zeros.simps) (simp add: dvd_eq_mod_eq_0)
next
  case (Suc j)
  have "s * 10 ^ Suc j \<noteq> 0" "s * 10 ^ Suc j mod 10 = 0" "s * 10 ^ Suc j div 10 = s * 10 ^ j"
    using Suc.prems by simp_all
  with Suc show ?case by (subst strip_zeros.simps) simp
qed

lemma body_str_start: "0 < s \<Longrightarrow> \<exists>c cs. body_str s x = c # cs \<and> is_digit c"
proof -
  assume s: "0 < s"
  obtain d ds where d: "nat_str s = d # ds" by (cases "nat_str s") auto
  then have "is_digit d" using nat_str_digits[of s] by simp
  with d show ?thesis by (auto simp: body_str_def Let_def take_Cons')
qed

lemma num_sign_digit: "is_digit c \<Longrightarrow> num_sign (c # cs) = (1, c # cs)"
  using digit_not_special[of c] by simp

lemma lex_number_num:
  assumes "num_stop r"
  shows "lex_number (num_str m e @ r) = Some (case parsed_num m e of (a, b) \<Rightarrow> TNum a b, r)"
proof (cases "m = 0")
  case True
  with assms show ?thesis
    by (simp add: num_str_def parsed_num_def lex_number_unum lex_unum_def lex_frac_stop lex_exp_stop
        digits_val_def)
next
  case False
  obtain s z where sz: "strip_zeros (nat \<bar>m\<bar>) = (s, z)" by fastforce
  with False have s: "0 < s" using strip_zeros_spec[of "nat \<bar>m\<bar>" s z] by simp
  obtain a b where ab: "body_val s (e + int z) = (a, b)" by fastforce
  have u: "lex_unum (body_str s (e + int z) @ r) = Some (a, b, r)"
    using lex_unum_body[OF s assms, of "e + int z"] ab by simp
  obtain c cs where c: "body_str s (e + int z) = c # cs" "is_digit c" using body_str_start[OF s] by blast
  show ?thesis
  proof (cases "m < 0")
    case True
    with False sz ab u show ?thesis by (simp add: num_str_def parsed_num_def lex_number_unum)
  next
    case False
    with \<open>m \<noteq> 0\<close> have "sgn m = 1" by simp
    with False \<open>m \<noteq> 0\<close> sz ab u c show ?thesis
      by (simp add: num_str_def parsed_num_def lex_number_unum num_sign_digit del: num_sign.simps)
  qed
qed

lemma num_norm_parsed: "parsed_num m e = (a, b) \<Longrightarrow> num_norm a b = num_norm m e"
proof (cases "m = 0")
  case True
  assume "parsed_num m e = (a, b)"
  with True show ?thesis by (simp add: parsed_num_def num_norm_def)
next
  case False
  assume p: "parsed_num m e = (a, b)"
  obtain s z where sz: "strip_zeros (nat \<bar>m\<bar>) = (s, z)" by fastforce
  with False have s: "0 < s" "\<not> 10 dvd s" using strip_zeros_spec[of "nat \<bar>m\<bar>" s z] by simp_all
  have nm: "num_norm m e = (sgn m * int s, e + int z)" using False sz by (simp add: num_norm_def)
  show ?thesis
  proof (cases "0 \<le> e + int z \<and> e + int z + int (length (nat_str s)) \<le> 21")
    case True
    let ?j = "nat (e + int z)"
    have ab: "a = sgn m * (int s * 10 ^ ?j)" "b = 0"
      using p False sz True by (auto simp: parsed_num_def body_val_def Let_def)
    have "nat \<bar>a\<bar> = s * 10 ^ ?j" using ab(1) False by (simp add: abs_mult nat_mult_distrib nat_power_eq)
    then have "strip_zeros (nat \<bar>a\<bar>) = (s, ?j)" using strip_zeros_mult[OF s] by simp
    moreover have "a \<noteq> 0" "sgn a = sgn m" using ab(1) False s(1) by (simp_all add: sgn_mult sgn_0_0)
    ultimately show ?thesis using nm ab(2) True by (simp add: num_norm_def)
  next
    case False': False
    have ab: "a = sgn m * int s" "b = e + int z"
      using p False sz False' by (auto simp: parsed_num_def body_val_def Let_def)
    have "strip_zeros (nat \<bar>a\<bar>) = (s, 0)" using ab(1) False strip_zeros_mult[OF s, of 0]
      by (simp add: abs_mult)
    moreover have "a \<noteq> 0" "sgn a = sgn m" using ab(1) False s(1) by (simp_all add: sgn_mult sgn_0_0)
    ultimately show ?thesis using nm ab(2) by (simp add: num_norm_def)
  qed
qed

section \<open>Strings\<close>

lemma hex_val_hex_char: "d < 16 \<Longrightarrow> hex_val (hex_char d) = Some d"
  by (simp add: hex_char_def Let_def)

lemma hex4_esc:
  assumes "a < 16" "b < 16"
  shows "hex4 [CHR ''0'', CHR ''0'', hex_char a, hex_char b] = Some (a * 16 + b)"
proof -
  have "hex_val CHR ''0'' = Some 0" by simp
  with assms show ?thesis by (simp add: hex_val_hex_char del: hex_val.simps)
qed
lemma esc_ctrl: "c \<notin> {CHR 0x22, CHR 0x5C, CHR 0x08, CHR 0x09, CHR 0x0A, CHR 0x0C, CHR 0x0D} \<Longrightarrow> (of_char c :: nat) < 32 \<Longrightarrow>
  lex_string (esc_char c @ r) acc = lex_string r (c # acc)"
proof -
  assume a: "c \<notin> {CHR 0x22, CHR 0x5C, CHR 0x08, CHR 0x09, CHR 0x0A, CHR 0x0C, CHR 0x0D}" and l: "(of_char c :: nat) < 32"
  let ?n = "of_char c :: nat"
  have h: "hex4 [CHR ''0'', CHR ''0'', hex_char (?n div 16), hex_char (?n mod 16)] = Some ?n"
  proof -
    have "hex4 [CHR ''0'', CHR ''0'', hex_char (?n div 16), hex_char (?n mod 16)]
        = Some (?n div 16 * 16 + ?n mod 16)"
      by (rule hex4_esc) (use l in simp_all)
    then show ?thesis by simp
  qed
  have e: "esc_char c = [CHR 0x5C, CHR ''u'', CHR ''0'', CHR ''0'', hex_char (?n div 16), hex_char (?n mod 16)]"
    using a l unfolding esc_char_def by auto
  show ?thesis using l h by (simp add: e del: hex4.simps)
qed

lemma esc_short: "c \<in> {CHR 0x22, CHR 0x5C, CHR 0x08, CHR 0x09, CHR 0x0A, CHR 0x0C, CHR 0x0D} \<Longrightarrow>
  lex_string (esc_char c @ r) acc = lex_string r (c # acc)"
  by (auto simp: esc_char_def unescape_def)

lemma esc_plain:
  "c \<notin> {CHR 0x22, CHR 0x5C, CHR 0x08, CHR 0x09, CHR 0x0A, CHR 0x0C, CHR 0x0D} \<Longrightarrow> \<not> (of_char c :: nat) < 32 \<Longrightarrow>
   lex_string (esc_char c @ r) acc = lex_string r (c # acc)"
  by (simp add: esc_char_def)

lemma lex_string_esc_char: "lex_string (esc_char c @ r) acc = lex_string r (c # acc)"
proof (cases "c \<in> {CHR 0x22, CHR 0x5C, CHR 0x08, CHR 0x09, CHR 0x0A, CHR 0x0C, CHR 0x0D}")
  case True then show ?thesis by (rule esc_short)
next
  case False
  show ?thesis
  proof (cases "(of_char c :: nat) < 32")
    case True with False show ?thesis by (rule esc_ctrl)
  next
    case F: False with False show ?thesis by (rule esc_plain)
  qed
qed

lemma lex_string_quoted:
  "lex_string (concat (map esc_char s) @ CHR 0x22 # r) acc = Inr (rev acc @ s, r)"
  by (induction s arbitrary: acc) (simp_all add: lex_string_esc_char)

section \<open>Lexing a printed value\<close>

lemma tapp_Nil [simp]: "tapp [] r = r"
  by (cases r) (simp_all add: tapp_def)

lemma tapp_Cons [simp]: "tapp (t # ts) r = tcons t (tapp ts r)"
  by (cases r) (simp_all add: tapp_def tcons_def)

lemma tapp_append [simp]: "tapp (ts @ us) r = tapp ts (tapp us r)"
  by (cases r) (simp_all add: tapp_def)

lemma not_ws_punct [simp]:
  "\<not> is_ws CHR 0x22" "\<not> is_ws CHR '',''" "\<not> is_ws CHR '':''" "\<not> is_ws CHR ''[''"
  "\<not> is_ws CHR '']''" "\<not> is_ws CHR ''{''" "\<not> is_ws CHR ''}''"
  by (simp_all add: is_ws_def)

lemma json_lex_punct:
  "json_lex (CHR ''['' # r) = tcons TLBrack (json_lex r)"
  "json_lex (CHR '']'' # r) = tcons TRBrack (json_lex r)"
  "json_lex (CHR ''{'' # r) = tcons TLBrace (json_lex r)"
  "json_lex (CHR ''}'' # r) = tcons TRBrace (json_lex r)"
  "json_lex (CHR '':'' # r) = tcons TColon (json_lex r)"
  "json_lex (CHR '','' # r) = tcons TComma (json_lex r)"
  by simp_all

lemma json_lex_keyword:
  "json_lex (CHR ''n'' # CHR ''u'' # CHR ''l'' # CHR ''l'' # r) = tcons TNull (json_lex r)"
  "json_lex (CHR ''t'' # CHR ''r'' # CHR ''u'' # CHR ''e'' # r) = tcons TTrue (json_lex r)"
  "json_lex (CHR ''f'' # CHR ''a'' # CHR ''l'' # CHR ''s'' # CHR ''e'' # r) = tcons TFalse (json_lex r)"
  by (simp_all only: json_lex.simps(2)) (simp_all add: is_ws_def is_digit_def)

lemma json_lex_quote: "json_lex (quote k @ r) = tcons (TStr k) (json_lex r)"
  by (simp add: quote_def lex_string_quoted)

lemma num_stop_punct [simp]:
  "num_stop (CHR '','' # r)" "num_stop (CHR '']'' # r)" "num_stop (CHR ''}'' # r)" "num_stop []"
  by (simp_all add: num_stop_def is_digit_def)

lemma num_stop_seq:
  "num_stop r \<Longrightarrow> num_stop (concat (map (\<lambda>y. CHR '','' # f y) xs) @ r)"
  by (cases xs) simp_all

lemma num_str_start: "\<exists>c cs. num_str m e = c # cs \<and> (c = CHR ''-'' \<or> is_digit c)"
proof (cases "m = 0")
  case True then show ?thesis by (simp add: num_str_def)
next
  case False
  obtain s z where sz: "strip_zeros (nat \<bar>m\<bar>) = (s, z)" by fastforce
  with False have "0 < s" using strip_zeros_spec[of "nat \<bar>m\<bar>" s z] by simp
  from body_str_start[OF this, of "e + int z"] False sz show ?thesis
    by (auto simp: num_str_def)
qed

lemma json_lex_number:
  assumes "lex_number (c # cs) = Some (t, r)" "c = CHR ''-'' \<or> is_digit c"
  shows "json_lex (c # cs) = tcons t (json_lex r)"
proof -
  have "\<not> is_ws c" "c \<noteq> CHR ''[''" "c \<noteq> CHR '']''" "c \<noteq> CHR ''{''" "c \<noteq> CHR ''}''"
    "c \<noteq> CHR '':''" "c \<noteq> CHR '',''" "c \<noteq> CHR 0x22"
    using assms(2) by (auto simp: is_ws_def is_digit_def)
  with assms show ?thesis by simp
qed

lemma json_lex_seq:
  assumes "\<And>y r. y \<in> set xs \<Longrightarrow> num_stop r \<Longrightarrow> json_lex (f y @ r) = tapp (g y) (json_lex r)"
    and "num_stop r"
  shows "json_lex (concat (map (\<lambda>y. CHR '','' # f y) xs) @ r) =
         tapp (concat (map (\<lambda>y. TComma # g y) xs)) (json_lex r)"
  using assms by (induction xs) (simp_all add: num_stop_seq json_lex_punct del: json_lex.simps)

lemma toks_pnum_num: "toks (pnum (JNum m e)) = [case parsed_num m e of (a, b) \<Rightarrow> TNum a b]"
  by (simp split: prod.splits)

lemma json_lex_print:
  "num_stop r \<Longrightarrow> json_lex (json_print v @ r) = tapp (toks (pnum v)) (json_lex r)"
proof (induction v arbitrary: r rule: json_print.induct)
  case (4 m e)
  obtain c cs where c: "num_str m e = c # cs" "c = CHR ''-'' \<or> is_digit c"
    using num_str_start by blast
  have "lex_number (c # cs @ r) = Some (case parsed_num m e of (a, b) \<Rightarrow> TNum a b, r)"
    using lex_number_num[OF "4", of m e] c(1) by simp
  from json_lex_number[OF this c(2)] c(1) show ?case by (simp only: toks_pnum_num) simp
next
  case (7 x xs)
  let ?r = "CHR '']'' # r"
  have "json_lex (concat (map (\<lambda>y. CHR '','' # json_print y) xs) @ ?r) =
        tapp (concat (map (\<lambda>y. TComma # toks (pnum y)) xs)) (json_lex ?r)"
    by (rule json_lex_seq) (simp_all add: "7.IH"(2))
  moreover have "num_stop (concat (map (\<lambda>y. CHR '','' # json_print y) xs) @ ?r)"
    by (simp add: num_stop_seq)
  ultimately show ?case by (simp add: "7.IH"(1) json_lex_punct comp_def del: json_lex.simps)
next
  case (9 k v ms)
  let ?r = "CHR ''}'' # r"
  let ?f = "\<lambda>(k', v'). quote k' @ CHR '':'' # json_print v'"
  let ?g = "\<lambda>(k', v'). TStr k' # TColon # toks (pnum v')"
  have "json_lex (concat (map (\<lambda>y. CHR '','' # ?f y) ms) @ ?r) =
        tapp (concat (map (\<lambda>y. TComma # ?g y) ms)) (json_lex ?r)"
    by (rule json_lex_seq) (auto simp: "9.IH"(2) json_lex_quote json_lex_punct simp del: json_lex.simps)
  moreover have "num_stop (concat (map (\<lambda>y. CHR '','' # ?f y) ms) @ ?r)"
    by (simp add: num_stop_seq)
  ultimately show ?case
    by (simp add: "9.IH"(1) json_lex_quote json_lex_punct split_def comp_def del: json_lex.simps)
qed (simp_all add: json_lex_quote json_lex_punct json_lex_keyword del: json_lex.simps)

section \<open>Parsing its tokens\<close>

lemma toks_start: "\<exists>t us. toks v = t # us \<and> t \<noteq> TRBrack"
  by (cases v rule: toks.cases) simp_all

lemma parse_seq_arr:
  assumes "\<And>y ts st. y \<in> set xs \<Longrightarrow> parse_toks (toks y @ ts) MVal st = parse_toks ts (MAfter y) st"
  shows "parse_toks (concat (map (\<lambda>y. TComma # toks y) xs) @ TRBrack # ts) (MAfter x) (FArr es # st) =
         parse_toks ts (MAfter (JArr (rev es @ x # xs))) st"
  using assms by (induction xs arbitrary: x es) simp_all

lemma parse_seq_obj:
  assumes "\<And>k' v' ts st. (k', v') \<in> set ms \<Longrightarrow>
             parse_toks (toks v' @ ts) MVal st = parse_toks ts (MAfter v') st"
  shows "parse_toks (concat (map (\<lambda>(k', v'). TComma # TStr k' # TColon # toks v') ms) @ TRBrace # ts)
           (MAfter v) (FObj acc k # st) =
         parse_toks ts (MAfter (JObj (rev acc @ (k, v) # ms))) st"
  using assms
proof (induction ms arbitrary: k v acc)
  case Nil then show ?case by simp
next
  case (Cons p ms)
  obtain a b where p: "p = (a, b)" by fastforce
  let ?rest = "concat (map (\<lambda>(k', v'). TComma # TStr k' # TColon # toks v') ms) @ TRBrace # ts"
  have "parse_toks (toks b @ ?rest) MVal (FObj ((k, v) # acc) a # st) =
        parse_toks ?rest (MAfter b) (FObj ((k, v) # acc) a # st)"
    using Cons.prems(1)[of a b] p by simp
  also have "\<dots> = parse_toks ts (MAfter (JObj (rev ((k, v) # acc) @ (a, b) # ms))) st"
    using Cons.prems by (intro Cons.IH) auto
  finally show ?case using p by simp
qed

lemma parse_toks_print:
  "json_value v \<Longrightarrow> parse_toks (toks v @ ts) MVal st = parse_toks ts (MAfter v) st"
proof (induction v arbitrary: ts st rule: toks.induct)
  case (7 x xs)
  obtain t us where t: "toks x = t # us" "t \<noteq> TRBrack" using toks_start by blast
  have "parse_toks ((toks x @ concat (map (\<lambda>y. TComma # toks y) xs) @ [TRBrack]) @ ts) MArr0 st =
        parse_toks ((toks x @ concat (map (\<lambda>y. TComma # toks y) xs) @ [TRBrack]) @ ts) MVal (FArr [] # st)"
    using t by simp
  also have "\<dots> = parse_toks ts (MAfter (JArr (x # xs))) st"
    using "7.IH" "7.prems" parse_seq_arr[where es = "[]"] by (simp add: list_all_iff)
  finally show ?case by simp
next
  case (9 k v ms)
  have "\<And>k' v' ts st. (k', v') \<in> set ms \<Longrightarrow>
          parse_toks (toks v' @ ts) MVal st = parse_toks ts (MAfter v') st"
    using "9.IH"(2) "9.prems" by (fastforce simp: list_all_iff)
  from parse_seq_obj[where acc = "[]", OF this] "9.IH"(1) "9.prems" show ?case by simp
qed simp_all

lemma json_value_pnum: "json_value v \<Longrightarrow> json_value (pnum v)"
  by (induction v rule: pnum.induct) (auto simp: list_all_iff split: prod.splits)

lemma jnorm_pnum: "jnorm (pnum v) = jnorm v"
proof (induction v rule: pnum.induct)
  case (1 m e)
  obtain a b where ab: "parsed_num m e = (a, b)" by fastforce
  with num_norm_parsed[OF ab] show ?case by (simp split: prod.splits)
qed (auto simp: comp_def split_def)

section \<open>Round trip\<close>

lemma json_print_examples:
  "json_print (JObj [(''id'', JNum 7 0), (''price'', JNum 1999 (-2)), (''qty'', JNum 30 (-1))])
     = ''{\"id\":7,\"price\":19.99,\"qty\":3}''"
  "json_print (JArr [JNum 1 21, JNum (-25) (-8), JStr [CHR ''a'', CHR 0x0A]])
     = ''[1e+21,-2.5e-7,\"a'' @ [CHR 0x5C, CHR ''n'', CHR 0x22, CHR '']'']"
  by code_simp+

text \<open>The lexer turns a printed value into its tokens, which the parser reads back.\<close>

lemma json_lex_parse_print:
  assumes v: "json_value v"
  shows "json_lex (json_print v) = Inr (toks (pnum v)) \<and> parse_toks (toks (pnum v)) MVal [] = Inr (pnum v)"
proof
  have "json_lex (json_print v @ []) = tapp (toks (pnum v)) (json_lex [])"
    by (rule json_lex_print) simp
  then show "json_lex (json_print v) = Inr (toks (pnum v))" by (simp add: tapp_def)
  show "parse_toks (toks (pnum v)) MVal [] = Inr (pnum v)"
    using parse_toks_print[OF json_value_pnum[OF v], of "[]" "[]"] by simp
qed

lemma json_print_not_Nil [simp]: "json_print v \<noteq> []"
proof -
  have "num_str m e \<noteq> []" for m e using num_str_start[of m e] by auto
  then show ?thesis by (cases v rule: json_print.cases) (simp_all add: quote_def)
qed

text \<open>
  \<open>JSON.parse\<close> reads back what \<open>JSON.stringify\<close> wrote, for every JSON value: the same
  value, each number written in the form of its printed text.
\<close>

lemma json_parse_print:
  "json_value v \<Longrightarrow> json_parse (json_print v) = Inr (pnum v) \<and> jnorm (pnum v) = jnorm v"
  using json_lex_parse_print[of v] by (simp add: json_parse_def jnorm_pnum)

lemma read_marker_print:
  "json_value v \<Longrightarrow> read_marker (Some (json_print v)) = Inr (pnum v)"
  using json_lex_parse_print[of v] by (simp add: read_marker_def json_parse_def)

end
