(* ===== verification/CartType.thy ===== *)
theory CartType
  imports Events JsonPrint
begin

text \<open>
  The run-time type of \<open>cartCount\<close>, which the source declares \<open>number\<close>
  (\<open>headers.component.ts\<close>, line 28). \<open>ngOnInit\<close> assigns it
  \<open>JSON.parse(cartData).length\<close>, which is a number only when the stored cart is an
  array (or a string); the broadcast assigns an array's length. In the style of a type
  soundness proof: a storage typing (\<open>store_typed\<close>: the local cart is the text of a JSON
  array), an event typing (\<open>event_typed\<close>: writes of the local cart keep it so) and a
  world typing (\<open>world_typed\<close>) that every step preserves. Without the storage typing
  the annotation fails: reachable states hold \<open>undefined\<close> or a string.
\<close>

section \<open>Typings\<close>

definition cart_text_ok :: "string \<Rightarrow> bool" where
  "cart_text_ok s \<longleftrightarrow> s = [] \<or> (case json_parse s of Inr (JArr xs) \<Rightarrow> True | _ \<Rightarrow> False)"

definition store_typed :: "storage \<Rightarrow> bool" where
  "store_typed st \<longleftrightarrow> (case st ''localCart'' of None \<Rightarrow> True | Some s \<Rightarrow> cart_text_ok s)"

fun event_typed :: "'p event \<Rightarrow> bool" where
  "event_typed (StorageSet k v) \<longleftrightarrow> (k = ''localCart'' \<longrightarrow> cart_text_ok v)"
| "event_typed e \<longleftrightarrow> True"

definition world_typed :: "'p world \<Rightarrow> bool" where
  "world_typed w \<longleftrightarrow> js_typeof (cartCount (hdr w)) = TyNumber \<and> store_typed (store w)"

section \<open>Preservation\<close>

lemma js_typeof_js_number [simp]: "js_typeof (js_number n) = TyNumber"
  by (simp add: js_number_def)

lemma load_local_cart_typed:
  assumes "store_typed st"
  shows "\<exists>c. load_local_cart (getItem st ''localCart'') = Inr c
           \<and> (case c of None \<Rightarrow> True | Some n \<Rightarrow> js_typeof n = TyNumber)"
proof (cases "item_truthy (getItem st ''localCart'')")
  case False then show ?thesis by (simp add: load_local_cart_def)
next
  case True
  then obtain s where s: "getItem st ''localCart'' = Some s" "s \<noteq> []"
    by (auto simp: item_truthy_def split: option.splits)
  with assms obtain xs where "json_parse s = Inr (JArr xs)"
    by (auto simp: store_typed_def cart_text_ok_def getItem_def split: sum.splits jsval.splits)
  with s show ?thesis by (simp add: load_local_cart_def item_truthy_def)
qed

lemma ngOnInit_typed: "world_typed w \<Longrightarrow> world_typed (ngOnInit w)"
proof -
  assume t: "world_typed w"
  then obtain c where c: "load_local_cart (getItem (store w) ''localCart'') = Inr c"
      and n: "case c of None \<Rightarrow> True | Some n \<Rightarrow> js_typeof n = TyNumber"
    using load_local_cart_typed by (auto simp: world_typed_def)
  from ngOnInit_ok[OF c] t n show ?thesis
    by (cases c) (simp_all add: world_typed_def)
qed

lemma store_typed_removeItem [simp]: "store_typed st \<Longrightarrow> store_typed (removeItem st k)"
  by (simp add: store_typed_def removeItem_def)

lemma store_typed_setItem:
  "store_typed st \<Longrightarrow> (k = ''localCart'' \<longrightarrow> cart_text_ok v) \<Longrightarrow> store_typed (setItem st k v)"
  by (simp add: store_typed_def setItem_def)

lemma on_router_event_typed: "world_typed w \<Longrightarrow> world_typed (on_router_event u w)"
  using on_router_event_cases[of u w] by (auto simp: world_typed_def handler_simps)

lemma step_typed:
  assumes "world_typed w" and "event_typed e" and "step w e = Some w'"
  shows "world_typed w'"
  using assms
proof (cases e)
  case NgOnInit with assms show ?thesis by (auto simp: ngOnInit_typed split: if_splits)
next
  case (RouterEvent u) with assms show ?thesis by (auto simp: on_router_event_typed)
next
  case (UserResponse i n) with assms show ?thesis
    by (auto simp: world_typed_def handler_simps drop_req_def split: if_splits)
next
  case (StorageSet k v) with assms show ?thesis by (auto simp: world_typed_def store_typed_setItem)
qed (auto simp: world_typed_def handler_simps drop_req_def onCustomerLogout_def emit_cart_length_def
      onSellerLogout_def onSearch_def searchProduct_def hideSearch_def redirectToDetails_def
      cart_length_cb_def search_cb_def Let_def split: if_splits option.splits)

lemma run_typed:
  "world_typed w \<Longrightarrow> list_all event_typed es \<Longrightarrow> run w es = Some w' \<Longrightarrow> world_typed w'"
proof (induction es arbitrary: w)
  case Nil then show ?case by simp
next
  case (Cons e es)
  then obtain w1 where s: "step w e = Some w1" and r: "run w1 es = Some w'"
    by (auto split: option.splits)
  have "world_typed w1" using step_typed[OF Cons.prems(1) _ s] Cons.prems(2) by simp
  with Cons.IH r Cons.prems(2) show ?case by simp
qed

section \<open>The annotation \<open>cartCount: number\<close>\<close>

text \<open>
  C26: as long as the local cart only ever holds the text of a JSON array, \<open>cartCount\<close>
  is a number in every state of every run, whatever else happens.
\<close>

theorem cart_count_number:
  assumes "store_typed st" and "list_all event_typed es" and "run (world_init st) es = Some w'"
  shows "js_typeof (cartCount (hdr w')) = TyNumber"
proof -
  have "world_typed (world_init st :: 'p world)"
    using assms(1) by (simp add: world_typed_def world_init_def header_init_def)
  from run_typed[OF this assms(2,3)] show ?thesis by (simp add: world_typed_def)
qed

theorem cart_count_number_witness:
  "js_typeof (cartCount (hdr (the (run (world_init [''localCart'' \<mapsto> ''[1,2]''])
      [NgOnInit, StorageSet ''localCart'' ''[]'', CartLength [1, 2, 3 :: nat]])))) = TyNumber"
proof -
  let ?st = "[''localCart'' \<mapsto> ''[1,2]'']"
  let ?es = "[NgOnInit, StorageSet ''localCart'' ''[]'', CartLength [1, 2, 3 :: nat]]"
  have st: "store_typed ?st" by code_simp
  have es: "list_all event_typed ?es" by code_simp
  have "run (world_init ?st) ?es \<noteq> None" by code_simp
  then have "run (world_init ?st) ?es = Some (the (run (world_init ?st) ?es))" by auto
  from cart_count_number[OF st es this] show ?thesis .
qed

text \<open>
  C27: the annotation is not an invariant of the component: a local cart \<open>5\<close> makes
  \<open>cartCount\<close> \<open>undefined\<close>, a local cart \<open>{"length":"x"}\<close> makes it a string,
  both without any exception.
\<close>

theorem cart_count_not_number:
  "(\<exists>w :: nat world. reach w \<and> cartCount (hdr w) = JUndef \<and> errors w = [])
   \<and> (\<exists>w :: nat world. reach w \<and> js_typeof (cartCount (hdr w)) = TyString \<and> errors w = [])"
proof
  let ?w = "the (run (world_init [''localCart'' \<mapsto> ''5'']) [NgOnInit :: nat event])"
  have "run (world_init [''localCart'' \<mapsto> ''5'']) [NgOnInit :: nat event] \<noteq> None" by code_simp
  then have "run (world_init [''localCart'' \<mapsto> ''5'']) [NgOnInit :: nat event] = Some ?w" by auto
  then have "reach ?w" by (rule reach_run[OF reach.init])
  moreover have "cartCount (hdr ?w) = JUndef \<and> errors ?w = []" by code_simp
  ultimately show "\<exists>w :: nat world. reach w \<and> cartCount (hdr w) = JUndef \<and> errors w = []" by blast
next
  let ?s = "''{\"length\":\"x\"}''"
  let ?w = "the (run (world_init [''localCart'' \<mapsto> ?s]) [NgOnInit :: nat event])"
  have "run (world_init [''localCart'' \<mapsto> ?s]) [NgOnInit :: nat event] \<noteq> None" by code_simp
  then have "run (world_init [''localCart'' \<mapsto> ?s]) [NgOnInit :: nat event] = Some ?w" by auto
  then have "reach ?w" by (rule reach_run[OF reach.init])
  moreover have "js_typeof (cartCount (hdr ?w)) = TyString \<and> errors ?w = []" by code_simp
  ultimately show "\<exists>w :: nat world. reach w \<and> js_typeof (cartCount (hdr w)) = TyString \<and> errors w = []"
    by blast
qed

end
