(* ===== verification/Router.thy ===== *)
theory Router
  imports Events
begin

text \<open>
  The Angular router as the component meets it: \<open>this.router.events\<close> emits, for one
  navigation, a sequence of event objects; the callback runs on each and tests
  \<open>res.url\<close>. The navigation events (\<open>NavigationStart\<close>, \<open>RoutesRecognized\<close>, the guard and
  resolve events, and the four ends) carry a \<open>url\<close>; the route-configuration, activation
  and scroll events carry none, so \<open>res.url\<close> is \<open>undefined\<close> there (\<open>event_url\<close>).
  \<open>navigation_events\<close> lists the events of one navigation by its outcome, for a route one
  level deep (deeper trees add activation events, which carry no url), and
  \<open>router_navigation\<close> delivers them to the component as its \<open>RouterEvent\<close>s. The sequences
  follow the router's documented event order; they are modelled from the framework, not
  from code of this repository.
\<close>

section \<open>Router events\<close>

datatype router_event =
    NavigationStart url
  | RouteConfigLoadStart
  | RouteConfigLoadEnd
  | RoutesRecognized url
  | GuardsCheckStart url
  | ChildActivationStart
  | ActivationStart
  | GuardsCheckEnd url
  | ResolveStart url
  | ResolveEnd url
  | ActivationEnd
  | ChildActivationEnd
  | NavigationEnd url
  | NavigationCancel url
  | NavigationError url
  | NavigationSkipped url
  | Scroll

fun event_url :: "router_event \<Rightarrow> url option" where
  "event_url (NavigationStart u) = Some u"
| "event_url (RoutesRecognized u) = Some u"
| "event_url (GuardsCheckStart u) = Some u"
| "event_url (GuardsCheckEnd u) = Some u"
| "event_url (ResolveStart u) = Some u"
| "event_url (ResolveEnd u) = Some u"
| "event_url (NavigationEnd u) = Some u"
| "event_url (NavigationCancel u) = Some u"
| "event_url (NavigationError u) = Some u"
| "event_url (NavigationSkipped u) = Some u"
| "event_url e = None"

datatype nav_outcome = NavSucceeds | NavCancelled | NavFails | NavSkipped

fun navigation_events :: "url \<Rightarrow> nav_outcome \<Rightarrow> router_event list" where
  "navigation_events u NavSucceeds =
     [NavigationStart u, RoutesRecognized u, GuardsCheckStart u, ChildActivationStart,
      ActivationStart, GuardsCheckEnd u, ResolveStart u, ResolveEnd u, ActivationEnd,
      ChildActivationEnd, NavigationEnd u]"
| "navigation_events u NavCancelled =
     [NavigationStart u, RoutesRecognized u, GuardsCheckStart u, ChildActivationStart,
      ActivationStart, GuardsCheckEnd u, NavigationCancel u]"
| "navigation_events u NavFails = [NavigationStart u, NavigationError u]"
| "navigation_events u NavSkipped = [NavigationSkipped u]"

definition deliver :: "router_event \<Rightarrow> 'p event" where
  "deliver e = RouterEvent (event_url e)"

definition router_navigation :: "url \<Rightarrow> nav_outcome \<Rightarrow> 'p event list" where
  "router_navigation u r = map deliver (navigation_events u r)"

definition url_events :: "router_event list \<Rightarrow> nat" where
  "url_events es = length (filter (\<lambda>e. event_url e \<noteq> None) es)"

section \<open>Delivering a navigation\<close>

lemma url_events_navigation:
  "url_events (navigation_events u NavSucceeds) = 7" "url_events (navigation_events u NavCancelled) = 5"
  "url_events (navigation_events u NavFails) = 2" "url_events (navigation_events u NavSkipped) = 1"
  by (simp_all add: url_events_def)

lemma event_url_navigation: "e \<in> set (navigation_events u r) \<Longrightarrow> event_url e = None \<or> event_url e = Some u"
  by (cases r) auto

lemma run_router_same:
  assumes "list_all (\<lambda>e. event_url e = None \<or> event_url e = Some u) es"
    and "routerSub w" and "store w = st"
    and "\<And>w'. store w' = st \<Longrightarrow> on_router_event (Some u) w' = f w'"
    and "\<And>w'. store (f w') = store w' \<and> routerSub (f w') = routerSub w'"
  shows "run w (map deliver es) = Some ((f ^^ url_events es) w)"
  using assms(1,2,3)
proof (induction es arbitrary: w)
  case Nil then show ?case by (simp add: url_events_def)
next
  case (Cons e es)
  show ?case
  proof (cases "event_url e")
    case None
    with Cons show ?thesis by (simp add: deliver_def url_events_def on_router_event_def)
  next
    case (Some v)
    with Cons.prems(1) have v: "v = u" by simp
    have s: "step w (deliver e) = Some (f w)"
      using Cons.prems(2,3) Some v assms(4) by (simp add: deliver_def)
    have "run (f w) (map deliver es) = Some ((f ^^ url_events es) (f w))"
      using Cons.IH Cons.prems assms(5)[of w] by simp
    with s Some show ?thesis by (simp add: url_events_def funpow_swap1)
  qed
qed

lemma funpow_subscribe:
  "(subscribe_req r ^^ n) w = w\<lparr>pending := pending w @ replicate n r\<rparr>"
  by (induction n) (simp_all add: handler_simps replicate_append_same)

lemma funpow_default:
  "(upd_hdr (\<lambda>h. h\<lparr>menuType := MenuDefault\<rparr>) ^^ Suc n) w = upd_hdr (\<lambda>h. h\<lparr>menuType := MenuDefault\<rparr>) w"
  by (induction n) (simp_all add: handler_simps)

lemma navigation_url_events:
  "list_all (\<lambda>e. event_url e = None \<or> event_url e = Some u) (navigation_events u r)"
  by (cases r) simp_all

lemma navigation_subscribes:
  fixes w :: "'p world"
  assumes "routerSub w" and "\<And>w' :: 'p world. store w' = store w \<Longrightarrow> on_router_event (Some u) w' = subscribe_req r w'"
  shows "run w (router_navigation u NavSucceeds) = Some (w\<lparr>pending := pending w @ replicate 7 r\<rparr>)"
proof -
  have "run w (map deliver (navigation_events u NavSucceeds)) =
      Some ((subscribe_req r ^^ url_events (navigation_events u NavSucceeds)) w)"
  proof (rule run_router_same[OF navigation_url_events assms(1) refl])
    fix w' :: "'p world" assume "store w' = store w"
    then show "on_router_event (Some u) w' = subscribe_req r w'" by (rule assms(2))
  qed (simp add: handler_simps)
  then show ?thesis unfolding router_navigation_def url_events_navigation funpow_subscribe by simp
qed

lemma navigation_default:
  fixes w :: "'p world"
  assumes "routerSub w"
    and "\<And>w' :: 'p world. store w' = store w \<Longrightarrow> on_router_event (Some u) w' = upd_hdr (\<lambda>h. h\<lparr>menuType := MenuDefault\<rparr>) w'"
  shows "run w (router_navigation u NavSucceeds) = Some (upd_hdr (\<lambda>h. h\<lparr>menuType := MenuDefault\<rparr>) w)"
proof -
  let ?f = "upd_hdr (\<lambda>h. h\<lparr>menuType := MenuDefault\<rparr>) :: 'p world \<Rightarrow> 'p world"
  have "run w (map deliver (navigation_events u NavSucceeds)) =
      Some ((?f ^^ url_events (navigation_events u NavSucceeds)) w)"
  proof (rule run_router_same[OF navigation_url_events assms(1) refl])
    fix w' :: "'p world" assume "store w' = store w"
    then show "on_router_event (Some u) w' = ?f w'" by (rule assms(2))
  qed (simp add: handler_simps)
  then show ?thesis unfolding router_navigation_def url_events_navigation eval_nat_numeral funpow_default by simp
qed

text \<open>
  C30: with a seller marker and a products URL, one successful navigation runs the
  callback on each of its seven url-carrying events and subscribes to the seller lookup
  seven times: every event with a url repeats the whole decision and its request.
\<close>

theorem navigation_seller_lookups:
  assumes "routerSub w" and "u \<noteq> []"
    and "read_marker (getItem (store w) ''admin'') = Inr sd" and "truthy sd"
    and "js_includes u ''products''"
    and "read_marker (getItem (store w) ''customer'') = Inr cd"
  shows "run w (router_navigation u NavSucceeds) =
    Some (w\<lparr>pending := pending w @ replicate 7 (SellerGetUser sd)\<rparr>)"
  using navigation_subscribes[OF assms(1), of u "SellerGetUser sd"] assms(2-6)
  by (simp add: on_router_event_def)

text \<open>
  C31: the customer logout composed with the navigation it starts: after \<open>onCustomerLogout\<close>
  and the router's events for \<open>/\<close>, with no seller signed in, the menu is the default
  one, the cart count is 0, the customer entry is gone, no request was made and the one
  navigation is to \<open>/\<close>.
\<close>

theorem logout_then_home:
  assumes "routerSub w" and "cartSub w" and "getItem (store w) ''admin'' = None"
  shows "\<exists>w'. run w (CustomerLogout # router_navigation ''/'' NavSucceeds) = Some w'
    \<and> menuType (hdr w') = MenuDefault \<and> cartCount (hdr w') = js_number 0
    \<and> getItem (store w') ''customer'' = None \<and> pending w' = pending w
    \<and> navigations w' = navigations w @ [''/'']"
proof -
  let ?w1 = "onCustomerLogout w"
  have st: "getItem (store ?w1) ''admin'' = None" "getItem (store ?w1) ''customer'' = None"
    using assms(3) by (simp_all add: onCustomerLogout_def emit_cart_length_def handler_simps
        Let_def getItem_def removeItem_def)
  have r1: "routerSub ?w1"
    using assms(1) by (simp add: onCustomerLogout_def emit_cart_length_def handler_simps Let_def)
  have "run ?w1 (router_navigation ''/'' NavSucceeds) = Some (upd_hdr (\<lambda>h. h\<lparr>menuType := MenuDefault\<rparr>) ?w1)"
    using navigation_default[OF r1, of "''/''"] st by (simp add: on_router_event_def)
  moreover have "step w CustomerLogout = Some ?w1" by simp
  ultimately show ?thesis using assms(2) st(2)
    by (simp add: onCustomerLogout_def emit_cart_length_def cart_length_cb_def handler_simps Let_def)
qed

theorem navigation_seller_lookups_witness:
  "length (pending (the (run ((world_init [''admin'' \<mapsto> ''{\"id\":7}''])\<lparr>routerSub := True\<rparr> :: nat world)
      (router_navigation ''/seller-products'' NavSucceeds)))) = 7"
proof -
  let ?w = "(world_init [''admin'' \<mapsto> ''{\"id\":7}''])\<lparr>routerSub := True\<rparr> :: nat world"
  have a: "read_marker (getItem (store ?w) ''admin'') = Inr (JObj [(''id'', JNum 7 0)])" by code_simp
  have i: "js_includes ''/seller-products'' ''products''" by code_simp
  have c: "read_marker (getItem (store ?w) ''customer'') = Inr JNull"
    by (simp add: world_init_def getItem_def)
  from navigation_seller_lookups[OF _ _ a _ i c] show ?thesis by (simp add: world_init_def)
qed

theorem logout_then_home_witness:
  "\<exists>w'. run ((world_init [''customer'' \<mapsto> ''{\"id\":3}''])\<lparr>routerSub := True, cartSub := True\<rparr> :: nat world)
      (CustomerLogout # router_navigation ''/'' NavSucceeds) = Some w'
    \<and> menuType (hdr w') = MenuDefault \<and> cartCount (hdr w') = js_number 0"
proof -
  let ?w = "(world_init [''customer'' \<mapsto> ''{\"id\":3}''])\<lparr>routerSub := True, cartSub := True\<rparr> :: nat world"
  have "getItem (store ?w) ''admin'' = None" by (simp add: world_init_def getItem_def)
  from logout_then_home[OF _ _ this] show ?thesis by auto
qed

end
