(* ===== verification/Spec2Isabelle.thy ===== *)
theory Spec2Isabelle
  imports CartType Router
begin

text \<open>
  \<^bold>\<open>The storefront header component.\<close>
  The repository's source is one Angular component, \<open>HeadersComponent\<close> in
  \<open>src/app/headers/headers.component.ts\<close>. It shows the site header: which of three
  menus (anonymous, seller, customer) is active, the user's name, a cart item count and
  a type-ahead product search. It reads session markers from \<open>localStorage\<close>, asks
  injected services for identities, products and the cart, and drives the router.

  \<^bold>\<open>Theories.\<close>
  \<^item> \<open>Prelude\<close>: type names (\<open>url\<close>, \<open>storage_key\<close>), the \<open>handler_simps\<close>
    collection, \<open>del_at\<close> and list facts.
  \<^item> \<open>JsValue\<close>: the JavaScript values the component handles (\<open>jsval\<close>), their
    truthiness (\<open>truthy\<close>), \<open>x.length\<close> (\<open>js_length\<close>, which throws on \<open>null\<close>),
    and \<open>String.prototype.includes\<close> (\<open>js_includes\<close>); the exceptions (\<open>js_error\<close>).
  \<^item> \<open>JsonLex\<close>, \<open>Json\<close>: \<open>JSON.parse\<close> (\<open>json_parse\<close>): a lexer (\<open>json_lex\<close>, a
    \<^theory_text>\<open>function\<close> whose termination rests on every scanner consuming input) and a
    stack parser (\<open>parse_toks\<close>, structural on the tokens). Numbers are kept exactly as
    written (\<open>JNum m e\<close> is \<open>m * 10 ^ e\<close>); a \<open>\\u\<close> escape above 255 is outside
    the model (\<open>Unsupported\<close>).
  \<^item> \<open>Storage\<close>: \<open>localStorage\<close> as a map (\<open>getItem\<close>, \<open>setItem\<close>,
    \<open>removeItem\<close>), the raw-text test \<open>if (item)\<close> (\<open>item_truthy\<close>) and the marker
    idiom \<open>item && JSON.parse(item)\<close> (\<open>read_marker\<close>).
  \<^item> \<open>Header\<close>: the component. Its fields are the record \<open>header\<close>
    (\<open>menuType\<close>, \<open>userName\<close>, \<open>isHidden\<close>, \<open>searchResults\<close>, \<open>cartCount\<close>);
    the record \<open>world\<close> adds the storage, the two subscriptions (\<open>routerSub\<close>,
    \<open>cartSub\<close>), the requests subscribed to and not yet answered (\<open>pending\<close>), the
    navigations, the cart fetches asked of \<open>ShopService\<close>, the values emitted on
    \<open>cartDataLength\<close> and the uncaught exceptions. One definition per method:
    \<open>ngOnInit\<close> (with \<open>load_local_cart\<close>), the router callback \<open>on_router_event\<close>,
    the callbacks \<open>seller_user_cb\<close>, \<open>customer_user_cb\<close>, \<open>search_cb\<close> (with
    \<open>limit_results\<close>), \<open>cart_length_cb\<close>, and \<open>onCustomerLogout\<close> (with
    \<open>emit_cart_length\<close>), \<open>onSellerLogout\<close>, \<open>onSearch\<close>, \<open>searchProduct\<close>,
    \<open>hideSearch\<close>, \<open>redirectToDetails\<close>. An exception ends the handler
    (\<open>raise\<close>) with the effects made so far.
  \<^item> \<open>Events\<close>: the component in its environment: \<open>event\<close> lists everything that
    can happen (framework call, router event, a request answering or failing, a cart
    emission, a template action, another component writing the storage); \<open>step\<close>
    delivers one event to its handler, \<open>run\<close> a sequence, \<open>reach\<close> the reachable
    states (inductive). Requests answer in any order: the asynchronous callbacks of a UI
    runtime interleave arbitrarily.
  \<^item> \<open>JsonPrint\<close>: \<open>JSON.stringify\<close> (\<open>json_print\<close>), the writer of what the login and
    cart pages, which are not under \<open>src/\<close>, store for the header to read. Numbers are
    printed by ECMAScript's \<open>Number::toString\<close> (\<open>num_str\<close>: the digits of the exact
    value without trailing zeros, in plain, point, leading-zero or exponent form by the
    position of the decimal point, so \<open>7\<close>, \<open>19.99\<close>, \<open>1e+21\<close>, \<open>-2.5e-7\<close>) and
    strings by \<open>QuoteJSONString\<close> (\<open>quote\<close>, \<open>esc_char\<close>: the short escapes and
    \<open>\\u00xx\<close> for the other control characters). The printed text is the engine's
    whenever the stored number is the shortest decimal of its double, as every number a
    page computes and stores is. The round trip is up to the representation of numbers:
    \<open>json_parse (json_print v) = Inr (pnum v)\<close>, where \<open>pnum\<close> writes each number the way
    the lexer reads its text back and \<open>jnorm (pnum v) = jnorm v\<close>, i.e. the same value
    (\<open>json_parse_print\<close>), carried through the token image \<open>toks\<close>: the lexer turns a
    printed value followed by any text not starting with a digit into its tokens
    (\<open>json_lex_print\<close>), and the parser reads them back (\<open>parse_toks_print\<close>) for
    every value without \<open>undefined\<close> (\<open>json_value\<close>).
  \<^item> \<open>CartType\<close>: the run-time type of \<open>cartCount\<close> (declared \<open>number\<close>), with
    \<open>js_typeof\<close> (\<open>typeof\<close>, in \<open>JsValue\<close>): a storage typing, an event typing and a
    world typing preserved by every step, as in a type soundness proof.
  \<^item> \<open>Router\<close>: the Angular router's events for one navigation (\<open>navigation_events\<close>,
    by outcome: success, guard cancel, error, skipped), which of them carry a \<open>url\<close>
    (\<open>event_url\<close>), and their delivery to the subscription callback (\<open>deliver\<close>, the
    \<open>res.url\<close> test of line 42); \<open>run_router_same\<close> runs a whole navigation.
  \<^item> This theory: the abstract menu rule \<open>menu_spec\<close> and the properties that span
    several handlers.

  \<^bold>\<open>What is shown.\<close>
  The menu refines the spec's rule (C1), with the seller-first precedence, the
  synchronous default branch and the parse-error path of the router callback (C2-C4);
  the three outcomes of \<open>ngOnInit\<close> on the local cart and the customer fetch (C5-C7);
  the cart broadcast, the logouts and the search answer (C8-C11); invariants of all
  reachable states by rule induction (C12, C13); ordering hazards and divergences
  (C14-C16, C20: stale search answers, a cart count frozen by a failed start, the two
  readings of the customer entry, a seller lookup answered after logout); commutation of
  independent sources and the storage frame (C17, C18); the seller test as a substring
  test (C19); the three route shapes (C21); the exact \<open>TypeError\<close> path of the local
  cart (C22); the handshake with the pages that write the storage: a cart stored by
  \<open>JSON.stringify\<close> is counted item by item (C23), and a seller object stored by the
  login page is looked up with the stored value (C24); identity and search answers
  commute with cart emissions (C25); \<open>cartCount\<close> stays a number as long as the local
  cart only ever holds an array text (C26), and reachable states without any exception
  hold \<open>undefined\<close> or a string in it otherwise (C27); every event adds at most one
  request, one exception and one navigation (C28); the cart count refines the spec's
  last-emission rule over any run (C29); one navigation to a products page issues seven
  seller lookups, one per url-carrying router event (C30); the customer logout followed
  by its navigation returns to the default menu with an empty cart (C31); an empty
  stored entry is read as an absent one (C32); a failed search is left unhandled (C33);
  every pending identity lookup carries a truthy marker (C34); and the menu after a
  whole navigation and its answers refines the spec's rule, however many times the
  callback ran (C35).

  \<^bold>\<open>Not modelled.\<close>
  The HTML template and stylesheet; the services' own code (\<open>SellerSignupService\<close>,
  \<open>CustomerSignupService\<close>, \<open>ShopService\<close>), which is not in the repository: their
  answers are events of any content. The login and cart pages, also not in the
  repository, appear only through their \<open>JSON.stringify\<close> writes (\<open>StorageSet\<close> events).
  Three library components stay partial, each for a stated reason: \<open>JSON.parse\<close> works on
  8-bit characters, so a \<open>\\u\<close> escape above 255 (a UTF-16 code unit a \<open>char\<close> cannot
  hold) is the value \<open>Unsupported\<close>, where JavaScript decodes it; numbers are kept
  exactly, not rounded to doubles: the component only tests them for zero (\<open>truthy\<close>
  rounds as a double would there, a value at most \<open>2 ^ -1075\<close> in magnitude being
  \<open>0\<close>, so \<open>1e-400\<close> is falsy) and stores them, and \<open>JSON.stringify\<close> prints the exact
  decimal, which is the engine's text only for a number that is its double's shortest
  decimal (a literal such as \<open>0.1000000000000000000001\<close> would print differently); the
  router's URL parsing and
  route matching are framework code, so a navigation's events are given by its outcome,
  and activation events of route trees deeper than one level are left out, as they
  carry no url and never reach the callback's body. No fuel or bound is needed: every
  definition is total by structural recursion or by the lexer's length measure.
\<close>

section \<open>The abstract menu rule\<close>


definition menu_spec :: "bool \<Rightarrow> bool \<Rightarrow> bool \<Rightarrow> menu" where
  "menu_spec seller customer products =
     (if seller \<and> products then MenuSeller else if customer then MenuCustomer else MenuDefault)"

text \<open>
  C1: the menu follows the spec's three-way rule. From a state where the component
  listens to the router and waits for no identity lookup, a router event with a URL,
  followed by the identity service's answer when a lookup was made, leaves the menu at
  \<open>menu_spec\<close> of the truthiness of the two markers and of whether the URL contains
  \<open>products\<close>; the user name is the answer's, or unchanged in the default case.
\<close>

theorem menu_resolution:
  assumes "routerSub w" and "pending w = []" and "u \<noteq> []"
    and "read_marker (getItem (store w) ''admin'') = Inr sd"
    and "read_marker (getItem (store w) ''customer'') = Inr cd"
  shows "\<exists>w'. run w (RouterEvent (Some u) #
        (if menu_spec (truthy sd) (truthy cd) (js_includes u ''products'') = MenuDefault
         then [] else [UserResponse 0 name])) = Some w'
    \<and> menuType (hdr w') = menu_spec (truthy sd) (truthy cd) (js_includes u ''products'')
    \<and> pending w' = []
    \<and> userName (hdr w') =
        (if menu_spec (truthy sd) (truthy cd) (js_includes u ''products'') = MenuDefault
         then userName (hdr w) else name)"
  using assms
  by (auto simp: on_router_event_def menu_spec_def handler_simps drop_req_def seller_user_cb_def
      customer_user_cb_def)

theorem menu_resolution_witness:
  "routerSub ((world_init [''admin'' \<mapsto> ''{\"id\":7}''])\<lparr>routerSub := True\<rparr> :: nat world)
   \<and> pending ((world_init [''admin'' \<mapsto> ''{\"id\":7}''])\<lparr>routerSub := True\<rparr> :: nat world) = []
   \<and> ''/seller-products'' \<noteq> []
   \<and> (\<exists>w'. run ((world_init [''admin'' \<mapsto> ''{\"id\":7}''])\<lparr>routerSub := True\<rparr> :: nat world)
        [RouterEvent (Some ''/seller-products''), UserResponse 0 ''ann''] = Some w'
      \<and> menuType (hdr w') = MenuSeller \<and> userName (hdr w') = ''ann'')"
proof -
  let ?w = "(world_init [''admin'' \<mapsto> ''{\"id\":7}''])\<lparr>routerSub := True\<rparr> :: nat world"
  have a: "read_marker (getItem (store ?w) ''admin'') = Inr (JObj [(''id'', JNum 7 0)])"
    by code_simp
  have c: "read_marker (getItem (store ?w) ''customer'') = Inr JNull"
    by (simp add: world_init_def getItem_def)
  have h: "routerSub ?w" "pending ?w = []" "''/seller-products'' \<noteq> []"
    by (simp_all add: world_init_def)
  have m: "menu_spec (truthy (JObj [(''id'', JNum 7 0)])) (truthy JNull)
      (js_includes ''/seller-products'' ''products'') = MenuSeller"
    by (simp add: menu_spec_def)
  from menu_resolution[OF h a c, of "''ann''"] obtain w' where
    r: "run ?w (RouterEvent (Some ''/seller-products'') #
        (if menu_spec (truthy (JObj [(''id'', JNum 7 0)])) (truthy JNull)
           (js_includes ''/seller-products'' ''products'') = MenuDefault
         then [] else [UserResponse 0 ''ann''])) = Some w'"
    and mt: "menuType (hdr w') = menu_spec (truthy (JObj [(''id'', JNum 7 0)])) (truthy JNull)
           (js_includes ''/seller-products'' ''products'')"
    and un: "userName (hdr w') =
        (if menu_spec (truthy (JObj [(''id'', JNum 7 0)])) (truthy JNull)
           (js_includes ''/seller-products'' ''products'') = MenuDefault
         then userName (hdr ?w) else ''ann'')"
    by blast
  from r mt un have "run ?w [RouterEvent (Some ''/seller-products''), UserResponse 0 ''ann''] = Some w'
      \<and> menuType (hdr w') = MenuSeller \<and> userName (hdr w') = ''ann''"
    by (simp only: m menu.distinct if_False)
  with h show ?thesis by blast
qed


text \<open>
  C14: search answers are applied in the order they arrive, not in the order of the
  keystrokes: with two searches pending, if the later one answers first, the results
  shown at the end are the earlier query's.
\<close>

theorem stale_search_results:
  assumes "pending w = [SearchProducts q1, SearchProducts q2]"
  shows "run w [SearchResponse 1 r2, SearchResponse 0 r1] =
    Some (w\<lparr>hdr := (hdr w)\<lparr>searchResults := Some (take 5 r1)\<rparr>, pending := []\<rparr>)"
  using assms
  by (simp add: handler_simps drop_req_def del_at_def search_cb_def limit_results_def)

lemma step_no_cart_sub:
  assumes "\<not> cartSub w" and "routerSub w" and "step w e = Some w'"
  shows "\<not> cartSub w' \<and> routerSub w' \<and> cartCount (hdr w') = cartCount (hdr w)"
proof (cases e)
  case (RouterEvent u)
  with assms on_router_event_cases[of u w] show ?thesis by (auto simp: handler_simps)
next
  case (UserResponse i name)
  with assms show ?thesis
    by (cases "pending w ! i") (auto simp: handler_simps drop_req_def seller_user_cb_def
        customer_user_cb_def split: if_splits)
qed (use assms in \<open>auto simp: handler_simps drop_req_def search_cb_def emit_cart_length_def
    onCustomerLogout_def onSellerLogout_def onSearch_def searchProduct_def hideSearch_def
    redirectToDetails_def Let_def split: if_splits option.splits\<close>)

lemma run_no_cart_sub:
  "\<not> cartSub w \<Longrightarrow> routerSub w \<Longrightarrow> run w es = Some w' \<Longrightarrow> cartCount (hdr w') = cartCount (hdr w)"
proof (induction es arbitrary: w)
  case Nil
  then show ?case by simp
next
  case (Cons e es)
  from Cons.prems(3) obtain w1 where s: "step w e = Some w1" and r: "run w1 es = Some w'"
    by (auto split: option.splits)
  from step_no_cart_sub[OF Cons.prems(1,2) s] have "\<not> cartSub w1" "routerSub w1"
    and "cartCount (hdr w1) = cartCount (hdr w)" by simp_all
  with Cons.IH[OF _ _ r] show ?case by simp
qed

text \<open>
  C15: if the local cart entry cannot be read when the component starts, the header's
  cart count stays at its initial 0 whatever happens afterwards: \<open>ngOnInit\<close> stopped
  before subscribing to \<open>cartDataLength\<close>, so no emission, not even the one of the
  component's own customer logout, reaches it.
\<close>

theorem cart_frozen_after_init_error:
  assumes "load_local_cart (getItem st ''localCart'') = Inl e"
    and "run (world_init st) (NgOnInit # es) = Some w'"
  shows "cartCount (hdr w') = js_number 0"
proof -
  let ?w1 = "(world_init st)\<lparr>routerSub := True, errors := [e]\<rparr>"
  have s: "step (world_init st) NgOnInit = Some ?w1"
    using assms(1) by (simp add: world_init_def ngOnInit_def handler_simps getItem_def)
  from assms(2) have r: "run ?w1 es = Some w'" by (simp del: step.simps add: s)
  have "\<not> cartSub ?w1" and "routerSub ?w1" by (simp_all add: world_init_def)
  from run_no_cart_sub[OF this r] show ?thesis by (simp add: world_init_def header_init_def)
qed

text \<open>
  C16: the two reads of the \<open>customer\<close> entry disagree. Holding the text \<open>null\<close>,
  it is no session for the router callback, which parses it (default menu, no lookup),
  but it is a session for \<open>ngOnInit\<close>, which tests the raw text and asks for the
  customer's cart.
\<close>

theorem customer_marker_divergence:
  assumes "getItem (store w) ''customer'' = Some ''null''" and "getItem (store w) ''admin'' = None"
    and "u \<noteq> []" and "load_local_cart (getItem (store w) ''localCart'') = Inr c"
  shows "on_router_event (Some u) w = w\<lparr>hdr := (hdr w)\<lparr>menuType := MenuDefault\<rparr>\<rparr>
    \<and> cartFetches (ngOnInit w) = Suc (cartFetches w)"
proof -
  have c: "read_marker (getItem (store w) ''customer'') = Inr JNull"
    using assms(1) by (simp add: read_marker_def json_parse_null_example)
  have a: "read_marker (getItem (store w) ''admin'') = Inr JNull"
    using assms(2) by simp
  have "on_router_event (Some u) w = upd_hdr (\<lambda>h. h\<lparr>menuType := MenuDefault\<rparr>) w"
    using assms(3) a c by (simp add: on_router_event_def)
  moreover have "item_truthy (getItem (store w) ''customer'')"
    using assms(1) by (simp add: item_truthy_def)
  ultimately show ?thesis using ngOnInit_ok[OF assms(4)] by (simp add: handler_simps)
qed


theorem stale_search_results_witness:
  "run (world_init Map.empty :: nat world) [SearchKey (Some ''a''), SearchKey (Some ''ab''),
     SearchResponse 1 [2], SearchResponse 0 [1, 1]]
   = Some ((world_init Map.empty)\<lparr>hdr := header_init\<lparr>searchResults := Some [1, 1]\<rparr>\<rparr>)"
proof -
  let ?w = "(world_init Map.empty)\<lparr>pending := [SearchProducts ''a'', SearchProducts ''ab'']\<rparr> :: nat world"
  have k: "run (world_init Map.empty :: nat world) [SearchKey (Some ''a''), SearchKey (Some ''ab'')] = Some ?w"
    by (simp add: world_init_def handler_simps searchProduct_def)
  have p: "pending ?w = [SearchProducts ''a'', SearchProducts ''ab'']" by simp
  have "run ?w [SearchResponse 1 [2], SearchResponse 0 [1, 1]] =
      Some (?w\<lparr>hdr := (hdr ?w)\<lparr>searchResults := Some (take 5 [1, 1])\<rparr>, pending := []\<rparr>)"
    by (rule stale_search_results[OF p])
  with k show ?thesis by (simp add: world_init_def header_init_def)
qed

theorem cart_frozen_after_init_error_witness:
  "load_local_cart (getItem [''localCart'' \<mapsto> ''null''] ''localCart'') = Inl TypeError
   \<and> (\<exists>w'. run (world_init [''localCart'' \<mapsto> ''null''] :: nat world)
        [NgOnInit, CartLength [1, 2], CustomerLogout] = Some w' \<and> cartCount (hdr w') = js_number 0)"
proof -
  have l: "load_local_cart (getItem [''localCart'' \<mapsto> ''null''] ''localCart'') = Inl TypeError"
    by (simp add: getItem_def load_local_cart_null)
  obtain w' where r: "run (world_init [''localCart'' \<mapsto> ''null''] :: nat world)
        (NgOnInit # [CartLength [1, 2], CustomerLogout]) = Some w'"
    by (simp add: world_init_def)
  from cart_frozen_after_init_error[OF l r] l r show ?thesis by auto
qed

theorem customer_marker_divergence_witness:
  "getItem (store (world_init [''customer'' \<mapsto> ''null''] :: nat world)) ''customer'' = Some ''null''
   \<and> on_router_event (Some ''/'') (world_init [''customer'' \<mapsto> ''null''] :: nat world)
     = (world_init [''customer'' \<mapsto> ''null''])\<lparr>hdr := header_init\<lparr>menuType := MenuDefault\<rparr>\<rparr>
   \<and> cartFetches (ngOnInit (world_init [''customer'' \<mapsto> ''null''] :: nat world)) = 1"
proof -
  let ?w = "world_init [''customer'' \<mapsto> ''null''] :: nat world"
  have c: "getItem (store ?w) ''customer'' = Some ''null''" and a: "getItem (store ?w) ''admin'' = None"
    by (simp_all add: world_init_def getItem_def)
  have l: "load_local_cart (getItem (store ?w) ''localCart'') = Inr None"
    by (simp add: world_init_def getItem_def load_local_cart_def item_truthy_def)
  have "''/'' \<noteq> []" by simp
  from customer_marker_divergence[OF c a this l] c show ?thesis by (simp add: world_init_def)
qed

text \<open>
  C20: an identity answer is applied whatever has happened since it was asked for. In a
  reachable state where the seller has logged out (no \<open>admin\<close> entry) but a seller
  lookup is still pending, its answer sets the seller menu and the seller's name.
\<close>

theorem seller_answer_after_logout:
  assumes "reach w" and "i < length (pending w)" and "pending w ! i = SellerGetUser m"
    and "getItem (store w) ''admin'' = None"
  shows "\<exists>w'. step w (UserResponse i name) = Some w' \<and> reach w'
    \<and> menuType (hdr w') = MenuSeller \<and> userName (hdr w') = name
    \<and> getItem (store w') ''admin'' = None"
proof -
  let ?w' = "upd_hdr (user_cb (pending w ! i) name) (drop_req i w)"
  have s: "step w (UserResponse i name) = Some ?w'" using assms(2,3) by simp
  have "reach ?w'" by (rule reach.step[OF assms(1) s])
  with s assms(3,4) show ?thesis
    by (simp add: handler_simps seller_user_cb_def drop_req_def getItem_def)
qed

theorem seller_answer_after_logout_witness:
  "reach (the (run (world_init [''admin'' \<mapsto> ''{\"id\":7}''])
      [NgOnInit, RouterEvent (Some ''/seller-products''), SellerLogout, RouterEvent (Some ''/'') :: nat event]))
   \<and> pending (the (run (world_init [''admin'' \<mapsto> ''{\"id\":7}''])
      [NgOnInit, RouterEvent (Some ''/seller-products''), SellerLogout, RouterEvent (Some ''/'') :: nat event]))
     = [SellerGetUser (JObj [(''id'', JNum 7 0)])]
   \<and> getItem (store (the (run (world_init [''admin'' \<mapsto> ''{\"id\":7}''])
      [NgOnInit, RouterEvent (Some ''/seller-products''), SellerLogout, RouterEvent (Some ''/'') :: nat event]))) ''admin'' = None
   \<and> (\<exists>w'. step (the (run (world_init [''admin'' \<mapsto> ''{\"id\":7}''])
      [NgOnInit, RouterEvent (Some ''/seller-products''), SellerLogout, RouterEvent (Some ''/'') :: nat event])) (UserResponse 0 ''bob'') = Some w'
      \<and> menuType (hdr w') = MenuSeller)"
proof -
  let ?es = "[NgOnInit, RouterEvent (Some ''/seller-products''), SellerLogout, RouterEvent (Some ''/'') :: nat event]"
  let ?w = "the (run (world_init [''admin'' \<mapsto> ''{\"id\":7}'']) ?es)"
  have ex: "run (world_init [''admin'' \<mapsto> ''{\"id\":7}'']) ?es \<noteq> None" by code_simp
  then have r: "run (world_init [''admin'' \<mapsto> ''{\"id\":7}'']) ?es = Some ?w" by auto
  have rw: "reach ?w" by (rule reach_run[OF reach.init r])
  have p: "pending ?w = [SellerGetUser (JObj [(''id'', JNum 7 0)])]" by code_simp
  have a: "getItem (store ?w) ''admin'' = None" by code_simp
  have "0 < length (pending ?w)" "pending ?w ! 0 = SellerGetUser (JObj [(''id'', JNum 7 0)])"
    using p by simp_all
  from seller_answer_after_logout[OF rw this a, of "''bob''"] rw p a show ?thesis by blast
qed

text \<open>
  C23: a local cart written by the cart page as \<open>JSON.stringify\<close> of a list of items is
  counted by \<open>ngOnInit\<close> as that many items, without an exception, and the cart
  subscription is made.
\<close>

theorem stored_cart_count:
  assumes "getItem (store w) ''localCart'' = Some (json_print (JArr xs))"
    and "list_all json_value xs"
  shows "cartCount (hdr (ngOnInit w)) = js_number (length xs)
    \<and> errors (ngOnInit w) = errors w \<and> cartSub (ngOnInit w)"
proof -
  have "json_value (JArr xs)" using assms(2) by simp
  then have "json_parse (json_print (JArr xs)) = Inr (JArr (map pnum xs))"
    using json_parse_print by fastforce
  with assms(1) have "load_local_cart (getItem (store w) ''localCart'') =
      Inr (Some (js_number (length xs)))" by (simp add: load_local_cart_def item_truthy_def)
  from ngOnInit_ok[OF this] show ?thesis by simp
qed

theorem stored_cart_count_witness:
  "json_print (JArr [JObj [(''id'', JNum 7 0), (''price'', JNum 1999 (-2))], JStr ''x''])
     = ''[{\"id\":7,\"price\":19.99},\"x\"]''
   \<and> cartCount (hdr (ngOnInit (world_init [''localCart'' \<mapsto>
       json_print (JArr [JObj [(''id'', JNum 7 0), (''price'', JNum 1999 (-2))], JStr ''x''])] :: nat world)))
     = js_number 2"
proof
  show "json_print (JArr [JObj [(''id'', JNum 7 0), (''price'', JNum 1999 (-2))], JStr ''x''])
     = ''[{\"id\":7,\"price\":19.99},\"x\"]''" by code_simp
  show "cartCount (hdr (ngOnInit (world_init [''localCart'' \<mapsto>
       json_print (JArr [JObj [(''id'', JNum 7 0), (''price'', JNum 1999 (-2))], JStr ''x''])] :: nat world)))
     = js_number 2"
    using stored_cart_count[of "world_init [''localCart'' \<mapsto>
        json_print (JArr [JObj [(''id'', JNum 7 0), (''price'', JNum 1999 (-2))], JStr ''x''])] :: nat world"
      "[JObj [(''id'', JNum 7 0), (''price'', JNum 1999 (-2))], JStr ''x'']"]
    by (simp add: world_init_def getItem_def numeral_2_eq_2)
qed

text \<open>
  C24: a seller signed in by the login page, which stores \<open>JSON.stringify\<close> of the seller
  object under \<open>admin\<close>, is looked up by the header on the next products route with the
  stored object (each number in the form its text is read back in, the same JavaScript
  value), while the customer marker stays readable.
\<close>

theorem stored_seller_request:
  assumes "json_value (JObj ms)" and "routerSub w"
    and "u \<noteq> []" and "js_includes u ''products''"
    and "read_marker (getItem (store w) ''customer'') = Inr cd"
  shows "\<exists>v. run w [StorageSet ''admin'' (json_print (JObj ms)), RouterEvent (Some u)] =
    Some (w\<lparr>store := setItem (store w) ''admin'' (json_print (JObj ms)),
            pending := pending w @ [SellerGetUser v]\<rparr>) \<and> jnorm v = jnorm (JObj ms)"
proof -
  let ?w1 = "w\<lparr>store := setItem (store w) ''admin'' (json_print (JObj ms))\<rparr>"
  let ?v = "pnum (JObj ms)"
  have a: "read_marker (getItem (store ?w1) ''admin'') = Inr ?v"
    using read_marker_print[OF assms(1)] by (simp add: getItem_setItem)
  have c: "read_marker (getItem (store ?w1) ''customer'') = Inr cd"
    using assms(5) by (simp add: getItem_setItem)
  have t: "truthy ?v" by simp
  have "on_router_event (Some u) ?w1 = ?w1\<lparr>pending := pending ?w1 @ [SellerGetUser ?v]\<rparr>"
    using assms(3,4) a c t by (simp add: on_router_event_def handler_simps del: pnum.simps)
  moreover have "jnorm ?v = jnorm (JObj ms)" by (rule jnorm_pnum)
  ultimately show ?thesis using assms(2) by auto
qed

theorem stored_seller_request_witness:
  "json_print (JObj [(''id'', JNum 7 0)]) = ''{\"id\":7}''
   \<and> (\<exists>v. run ((world_init Map.empty)\<lparr>routerSub := True\<rparr> :: nat world)
     [StorageSet ''admin'' (json_print (JObj [(''id'', JNum 7 0)])), RouterEvent (Some ''/seller-products'')] =
   Some ((world_init Map.empty)\<lparr>routerSub := True,
           store := setItem Map.empty ''admin'' (json_print (JObj [(''id'', JNum 7 0)])),
           pending := [SellerGetUser v]\<rparr>) \<and> jnorm v = jnorm (JObj [(''id'', JNum 7 0)]))"
proof
  show "json_print (JObj [(''id'', JNum 7 0)]) = ''{\"id\":7}''" by code_simp
  have i: "js_includes ''/seller-products'' ''products''" by code_simp
  show "\<exists>v. run ((world_init Map.empty)\<lparr>routerSub := True\<rparr> :: nat world)
     [StorageSet ''admin'' (json_print (JObj [(''id'', JNum 7 0)])), RouterEvent (Some ''/seller-products'')] =
   Some ((world_init Map.empty)\<lparr>routerSub := True,
           store := setItem Map.empty ''admin'' (json_print (JObj [(''id'', JNum 7 0)])),
           pending := [SellerGetUser v]\<rparr>) \<and> jnorm v = jnorm (JObj [(''id'', JNum 7 0)])"
    using stored_seller_request[of "[(''id'', JNum 7 0)]" "(world_init Map.empty)\<lparr>routerSub := True\<rparr> :: nat world"
        "''/seller-products''" JNull, OF _ _ _ i]
    by (simp add: world_init_def getItem_def)
qed

text \<open>
  C35: the menu after a whole navigation refines the spec's rule: from a state with no
  request outstanding, the router's events for one successful navigation followed by
  the answers to every lookup they issued leave \<open>menuType\<close> equal to \<open>menu_spec\<close> of the
  two markers and the URL, the user name set whenever a lookup was made, nothing
  pending and no exception raised, however many times the callback ran.
\<close>

theorem navigation_menu_refines:
  fixes w :: "'p world"
  assumes "routerSub w" and "pending w = []" and "u \<noteq> []"
    and sd: "read_marker (getItem (store w) ''admin'') = Inr sd"
    and cd: "read_marker (getItem (store w) ''customer'') = Inr cd"
  shows "\<exists>w1 w2. run w (router_navigation u NavSucceeds) = Some w1
     \<and> run w1 (map (answer name res) (pending w1)) = Some w2
     \<and> menuType (hdr w2) = menu_spec (truthy sd) (truthy cd) (js_includes u ''products'')
     \<and> pending w2 = [] \<and> errors w2 = errors w
     \<and> (menu_spec (truthy sd) (truthy cd) (js_includes u ''products'') \<noteq> MenuDefault
        \<longrightarrow> userName (hdr w2) = name)"
proof -
  have rd: "\<And>w' :: 'p world. store w' = store w \<Longrightarrow> on_router_event (Some u) w' =
      (if truthy sd \<and> js_includes u ''products'' then subscribe_req (SellerGetUser sd) w'
       else if truthy cd then subscribe_req (CustomerGetUser cd) w'
       else upd_hdr (\<lambda>h. h\<lparr>menuType := MenuDefault\<rparr>) w')"
    using assms(3) sd cd by (simp add: on_router_event_def)
  consider (s) "truthy sd \<and> js_includes u ''products''"
    | (c) "\<not> (truthy sd \<and> js_includes u ''products'')" "truthy cd"
    | (d) "\<not> (truthy sd \<and> js_includes u ''products'')" "\<not> truthy cd" by blast
  then show ?thesis
  proof cases
    case s
    let ?w1 = "w\<lparr>pending := replicate 7 (SellerGetUser sd)\<rparr>"
    have n: "run w (router_navigation u NavSucceeds) = Some ?w1"
      using navigation_subscribes[OF assms(1), of u "SellerGetUser sd"] rd s assms(2) by simp
    have "run ?w1 (map (answer name res) (pending ?w1)) =
        Some (upd_hdr (user_cb (SellerGetUser sd) name) (?w1\<lparr>pending := []\<rparr>))"
      by (rule run_answers_same[where n = 6]) simp_all
    with n s show ?thesis by (auto simp: menu_spec_def handler_simps seller_user_cb_def)
  next
    case c
    let ?w1 = "w\<lparr>pending := replicate 7 (CustomerGetUser cd)\<rparr>"
    have n: "run w (router_navigation u NavSucceeds) = Some ?w1"
      using navigation_subscribes[OF assms(1), of u "CustomerGetUser cd"] rd c assms(2) by simp
    have "run ?w1 (map (answer name res) (pending ?w1)) =
        Some (upd_hdr (user_cb (CustomerGetUser cd) name) (?w1\<lparr>pending := []\<rparr>))"
      by (rule run_answers_same[where n = 6]) simp_all
    with n c show ?thesis by (auto simp: menu_spec_def handler_simps customer_user_cb_def)
  next
    case d
    have "run w (router_navigation u NavSucceeds) = Some (upd_hdr (\<lambda>h. h\<lparr>menuType := MenuDefault\<rparr>) w)"
      using navigation_default[OF assms(1), of u] rd d by simp
    with d assms(2) show ?thesis by (auto simp: menu_spec_def handler_simps)
  qed
qed

theorem navigation_menu_refines_witness:
  "\<exists>w1 w2. run ((world_init [''customer'' \<mapsto> ''{\"id\":3}''])\<lparr>routerSub := True\<rparr> :: nat world)
        (router_navigation ''/'' NavSucceeds) = Some w1
     \<and> run w1 (map (answer ''ann'' []) (pending w1)) = Some w2
     \<and> menuType (hdr w2) = MenuCustomer \<and> userName (hdr w2) = ''ann''"
proof -
  let ?w = "(world_init [''customer'' \<mapsto> ''{\"id\":3}''])\<lparr>routerSub := True\<rparr> :: nat world"
  have a: "read_marker (getItem (store ?w) ''admin'') = Inr JNull"
    by (simp add: world_init_def getItem_def)
  have c: "read_marker (getItem (store ?w) ''customer'') = Inr (JObj [(''id'', JNum 3 0)])" by code_simp
  from navigation_menu_refines[OF _ _ _ a c, of "''/''" "''ann''" "[]"] show ?thesis
    by (auto simp: world_init_def menu_spec_def)
qed

end
